theory Spec2Isabelle
  imports Complex_Main "HOL-Library.Word"
begin

unbundle bit_operations_syntax

section \<open>The model of init.cpp\<close>

text \<open>
  The development embeds the functions of \<^verbatim>\<open>init.cpp\<close>: \<^verbatim>\<open>initHashKeys\<close>,
  \<^verbatim>\<open>InitAttackTables\<close>, \<^verbatim>\<open>initializeLookupTables\<close>, \<^verbatim>\<open>InitReductions\<close> and
  \<^verbatim>\<open>InitNewGame\<close>. Global C arrays are total functions from indices to values (lists
  where the number of slots is the point); a loop is a \<open>fold\<close> over the range of its
  counter, in the order the code runs it; a function that writes globals takes the old
  tables and returns the new ones. Constants, tables and helpers that init.cpp uses and
  does not define (\<^verbatim>\<open>MAXDEPTH\<close>, \<^verbatim>\<open>NOMOVE\<close>, the magic numbers, the mask and ray-cast
  helpers, the random generator) are parameters of the model, gathered in a record for
  each function; where a property depends on what such a helper does, the helper is
  modelled from the specification and marked so.
\<close>

type_synonym Bitboard = "64 word"

subsection \<open>InitReductions\<close>

text \<open>
  \<^verbatim>\<open>int reductions[2][MAXDEPTH][MAXPLY]; int lmp_margin[MAXDEPTH][2]; int see_margin[MAXDEPTH][2];\<close>
\<close>

record search_tables =
  reductions :: "nat \<Rightarrow> nat \<Rightarrow> nat \<Rightarrow> int"
  lmp_margin :: "nat \<Rightarrow> nat \<Rightarrow> int"
  see_margin :: "nat \<Rightarrow> nat \<Rightarrow> int"

text \<open>Objects of static storage duration start zero-initialised.\<close>

definition static_zero_tables :: search_tables where
  "static_zero_tables =
     \<lparr>reductions = (\<lambda>_ _ _. 0), lmp_margin = (\<lambda>_ _. 0), see_margin = (\<lambda>_ _. 0)\<rparr>"

text \<open>
  The conversion of a \<^verbatim>\<open>double\<close> to \<^verbatim>\<open>int\<close> on assignment discards the fractional
  part (truncation towards zero). Values of type \<^verbatim>\<open>double\<close> are idealised as real
  numbers: \<^verbatim>\<open>log\<close> is the natural logarithm, \<^verbatim>\<open>std::pow(depth, 2.0)\<close> the square.
\<close>

definition double_to_int :: "real \<Rightarrow> int" where
  "double_to_int x = (if 0 \<le> x then \<lfloor>x\<rfloor> else \<lceil>x\<rceil>)"

text \<open>The assignments \<^verbatim>\<open>a[i][j] = v\<close> and \<^verbatim>\<open>a[b][i][j] = v\<close>.\<close>

definition set2 :: "(nat \<Rightarrow> nat \<Rightarrow> 'a) \<Rightarrow> nat \<Rightarrow> nat \<Rightarrow> 'a \<Rightarrow> (nat \<Rightarrow> nat \<Rightarrow> 'a)" where
  "set2 a i j v = a(i := (a i)(j := v))"

definition set3 ::
  "(nat \<Rightarrow> nat \<Rightarrow> nat \<Rightarrow> 'a) \<Rightarrow> nat \<Rightarrow> nat \<Rightarrow> nat \<Rightarrow> 'a \<Rightarrow> (nat \<Rightarrow> nat \<Rightarrow> nat \<Rightarrow> 'a)" where
  "set3 a b i j v = a(b := set2 (a b) i j v)"

text \<open>The body of the inner loop over \<open>j\<close> (lines 155-156).\<close>

definition reductions_body :: "nat \<Rightarrow> nat \<Rightarrow> search_tables \<Rightarrow> search_tables" where
  "reductions_body i j T =
     (let T1 = T\<lparr>reductions := set3 (reductions T) 0 i j
                   (double_to_int (- 0.25 + ln (real i) * ln (real j) / 2.25))\<rparr>
      in T1\<lparr>reductions := set3 (reductions T1) 1 i j
                   (double_to_int (1.00 + ln (real i) * ln (real j) / 2.00))\<rparr>)"

text \<open>The body of the loop over \<open>depth\<close> (lines 161-165).\<close>

definition margins_body :: "nat \<Rightarrow> search_tables \<Rightarrow> search_tables" where
  "margins_body depth T =
     (let T1 = T\<lparr>lmp_margin := set2 (lmp_margin T) depth 0
                   (double_to_int (1.5 + 0.5 * (real depth)\<^sup>2))\<rparr>;
          T2 = T1\<lparr>lmp_margin := set2 (lmp_margin T1) depth 1
                   (double_to_int (3.0 + 1.0 * (real depth)\<^sup>2))\<rparr>;
          T3 = T2\<lparr>see_margin := set2 (see_margin T2) depth 1 (- 80 * int depth)\<rparr>
      in T3\<lparr>see_margin := set2 (see_margin T3) depth 0 (- 30 * int depth * int depth)\<rparr>)"

text \<open>
  The function, lines 148-168; \<^verbatim>\<open>MAXDEPTH\<close> comes from a header and is a parameter. The
  products of type \<^verbatim>\<open>int\<close> (\<^verbatim>\<open>-80 * depth\<close>, \<^verbatim>\<open>-30 * depth * depth\<close>) are integers:
  they stay inside 32 bits for every depth below 8460.
\<close>

definition InitReductions :: "nat \<Rightarrow> search_tables \<Rightarrow> search_tables" where
  "InitReductions MAXDEPTH T =
     (let T1 = T\<lparr>reductions := set3 (reductions T) 0 0 0 0\<rparr>;
          T2 = T1\<lparr>reductions := set3 (reductions T1) 1 0 0 0\<rparr>;
          T3 = fold (\<lambda>i. fold (\<lambda>j. reductions_body i j) [1..<MAXDEPTH]) [1..<MAXDEPTH] T2
      in fold margins_body [0..<MAXDEPTH] T3)"

text \<open>The values the two loops store, by table and index.\<close>

definition lmr_value :: "nat \<Rightarrow> nat \<Rightarrow> nat \<Rightarrow> int" where
  "lmr_value b i j =
     (if b = 0 then double_to_int (- 0.25 + ln (real i) * ln (real j) / 2.25)
      else double_to_int (1.00 + ln (real i) * ln (real j) / 2.00))"

definition lmp_value :: "nat \<Rightarrow> nat \<Rightarrow> int" where
  "lmp_value d k =
     (if k = 0 then double_to_int (1.5 + 0.5 * (real d)\<^sup>2)
      else double_to_int (3.0 + 1.0 * (real d)\<^sup>2))"

definition see_value :: "nat \<Rightarrow> nat \<Rightarrow> int" where
  "see_value d k = (if k = 0 then - 30 * int d * int d else - 80 * int d)"

subsection \<open>initHashKeys\<close>

text \<open>
  \<^verbatim>\<open>Bitboard PieceKeys[12][64]; Bitboard enpassant_keys[64]; Bitboard SideKey;
  Bitboard CastleKeys[16];\<close> (lines 16-19). The tables are lists, so that the number of
  slots of each is part of the state.
\<close>

record hash_keys =
  PieceKeys :: "Bitboard list list"
  enpassant_keys :: "Bitboard list"
  SideKey :: Bitboard
  CastleKeys :: "Bitboard list"

text \<open>
  The tables as the program starts: every slot of the declared size, zero.
\<close>

definition static_zero_keys :: hash_keys where
  "static_zero_keys =
     \<lparr>PieceKeys = replicate 12 (replicate 64 0), enpassant_keys = replicate 64 0,
      SideKey = 0, CastleKeys = replicate 16 0\<rparr>"

text \<open>
  \<^verbatim>\<open>GetRandomBitboardNumber\<close> is declared in random.h, which is not part of init.cpp:
  it is a parameter, a step function from the generator's state to the next key and the
  next state. The state of initHashKeys is the pair of the key tables and the generator
  state; each of the four functions below is one assignment of the source (lines 55, 61,
  66 and 69). A write outside a list would leave it unchanged where C has an out-of-bounds
  store; the theorems assume the indices are inside the declared tables.
\<close>

definition piece_key_step ::
  "('g \<Rightarrow> Bitboard \<times> 'g) \<Rightarrow> nat \<Rightarrow> nat \<Rightarrow> hash_keys \<times> 'g \<Rightarrow> hash_keys \<times> 'g" where
  "piece_key_step GetRandomBitboardNumber Typeindex Numberindex s =
     (let (r, g') = GetRandomBitboardNumber (snd s)
      in ((fst s)\<lparr>PieceKeys := (PieceKeys (fst s))
              [Typeindex := (PieceKeys (fst s) ! Typeindex)[Numberindex := r]]\<rparr>, g'))"

definition enpassant_key_step ::
  "('g \<Rightarrow> Bitboard \<times> 'g) \<Rightarrow> nat \<Rightarrow> hash_keys \<times> 'g \<Rightarrow> hash_keys \<times> 'g" where
  "enpassant_key_step GetRandomBitboardNumber square s =
     (let (r, g') = GetRandomBitboardNumber (snd s)
      in ((fst s)\<lparr>enpassant_keys := (enpassant_keys (fst s))[square := r]\<rparr>, g'))"

definition castle_key_step ::
  "('g \<Rightarrow> Bitboard \<times> 'g) \<Rightarrow> nat \<Rightarrow> hash_keys \<times> 'g \<Rightarrow> hash_keys \<times> 'g" where
  "castle_key_step GetRandomBitboardNumber index s =
     (let (r, g') = GetRandomBitboardNumber (snd s)
      in ((fst s)\<lparr>CastleKeys := (CastleKeys (fst s))[index := r]\<rparr>, g'))"

definition side_key_step ::
  "('g \<Rightarrow> Bitboard \<times> 'g) \<Rightarrow> hash_keys \<times> 'g \<Rightarrow> hash_keys \<times> 'g" where
  "side_key_step GetRandomBitboardNumber s =
     (let (r, g') = GetRandomBitboardNumber (snd s)
      in ((fst s)\<lparr>SideKey := r\<rparr>, g'))"

text \<open>
  The loops of lines 53-69; the enum bounds \<^verbatim>\<open>WP\<close> and \<^verbatim>\<open>BK\<close> come from a header
  and are parameters.
\<close>

definition initHashKeys ::
  "('g \<Rightarrow> Bitboard \<times> 'g) \<Rightarrow> nat \<Rightarrow> nat \<Rightarrow> hash_keys \<times> 'g \<Rightarrow> hash_keys \<times> 'g" where
  "initHashKeys GetRandomBitboardNumber WP BK s =
     (let s1 = fold (\<lambda>Typeindex.
                  fold (piece_key_step GetRandomBitboardNumber Typeindex) [0..<64])
                [WP..<Suc BK] s;
          s2 = fold (enpassant_key_step GetRandomBitboardNumber) [0..<64] s1;
          s3 = fold (castle_key_step GetRandomBitboardNumber) [0..<16] s2
      in side_key_step GetRandomBitboardNumber s3)"

text \<open>
  The state of the generator after \<open>k\<close> draws, and the \<open>k\<close>-th key it hands out
  (counting from 0).
\<close>

definition rng_state :: "('g \<Rightarrow> Bitboard \<times> 'g) \<Rightarrow> 'g \<Rightarrow> nat \<Rightarrow> 'g" where
  "rng_state rng g k = ((\<lambda>x. snd (rng x)) ^^ k) g"

definition rng_draw :: "('g \<Rightarrow> Bitboard \<times> 'g) \<Rightarrow> 'g \<Rightarrow> nat \<Rightarrow> Bitboard" where
  "rng_draw rng g k = fst (rng (rng_state rng g k))"

text \<open>
  The sizes of the declarations of lines 16-19.
\<close>

definition declared_key_shape :: "hash_keys \<Rightarrow> bool" where
  "declared_key_shape K \<longleftrightarrow>
     length (PieceKeys K) = 12 \<and> (\<forall>t<12. length (PieceKeys K ! t) = 64)
     \<and> length (enpassant_keys K) = 64 \<and> length (CastleKeys K) = 16"

text \<open>
  A generator for the examples: it hands out 0, 1, 2, ... when started at 0.
\<close>

definition counter_rng :: "Bitboard \<Rightarrow> Bitboard \<times> Bitboard" where
  "counter_rng g = (g, g + 1)"

subsection \<open>InitNewGame\<close>

text \<open>
  The types \<^verbatim>\<open>ThreadData\<close>, \<^verbatim>\<open>Position\<close>, \<^verbatim>\<open>SearchData\<close>, \<^verbatim>\<open>SearchInfo\<close> and
  \<^verbatim>\<open>PvTable\<close> are declared in headers; the records below hold the fields InitNewGame
  touches, and a type parameter stands for the rest of a structure (\<open>'b\<close> for the board
  fields of a position, \<open>'h\<close> for the history tables of the search data). A move is a
  32-bit integer, arrays are functions of their indices.
\<close>

type_synonym Move = "32 word"

record PvTable =
  pvLength :: "nat \<Rightarrow> int"
  pvArray :: "nat \<Rightarrow> nat \<Rightarrow> Move"

record SearchInfo =
  starttime :: int
  stopped :: int
  nodes :: int
  seldepth :: int

record 'h SearchData =
  counterMoves :: "nat \<Rightarrow> nat \<Rightarrow> Move"
  histories :: 'h

record 'b Position =
  board :: 'b
  played_positions :: "Bitboard list"

record ('b, 'h) ThreadData =
  pos :: "'b Position"
  sd :: "'h SearchData"
  info :: SearchInfo
  pvTable :: PvTable

text \<open>
  What InitNewGame reads and writes: the worker \<^verbatim>\<open>td\<close> it is given and the globals, namely
  the transposition table (a list of slots, \<open>None\<close> for an empty slot), the vector
  \<^verbatim>\<open>threads_data\<close> and the helper threads (\<open>'p\<close>).
\<close>

record ('b, 'h, 'e, 'p) engine =
  td :: "('b, 'h) ThreadData"
  TT :: "'e option list"
  threads_data :: "('b, 'h) ThreadData list"
  helper_threads :: 'p

text \<open>
  What InitNewGame uses and init.cpp does not define: the constants \<^verbatim>\<open>MAXDEPTH\<close> and
  \<^verbatim>\<open>NOMOVE\<close>, the helpers \<^verbatim>\<open>CleanHistories\<close> (on the search data it is passed) and
  \<^verbatim>\<open>StopHelperThreads\<close>, the reading of a position text by the external parser, and the
  clock that \<^verbatim>\<open>gettimeofday\<close> reads.
\<close>

record ('b, 'h, 'p) newgame_env =
  cfg_MAXDEPTH :: nat
  cfg_NOMOVE :: Move
  CleanHistories :: "'h SearchData \<Rightarrow> 'h SearchData"
  StopHelperThreads :: "'p \<Rightarrow> 'p"
  parse_text :: "string \<Rightarrow> 'b"
  tv_sec :: int
  tv_usec :: int

text \<open>
  \<^verbatim>\<open>return t.tv_sec * 1000 + t.tv_usec / 1000;\<close> (the branch without WIN32), converted to
  the return type \<^verbatim>\<open>int\<close>; \<^verbatim>\<open>tv_usec\<close> is not negative.
\<close>

definition GetTimeMs :: "int \<Rightarrow> int \<Rightarrow> int" where
  "GetTimeMs sec usec = signed_take_bit 31 (sec * 1000 + usec div 1000)"

text \<open>
  \<^verbatim>\<open>std::memset(p, c, n)\<close> stores the value \<^verbatim>\<open>(unsigned char) c\<close> into every byte, so a
  32-bit element reads back as four copies of the low byte of \<open>c\<close>.
\<close>

definition memset_int :: "32 word \<Rightarrow> 32 word" where
  "memset_int c =
     (let b = c AND 0xFF
      in b OR push_bit 8 b OR push_bit 16 b OR push_bit 24 b)"

text \<open>Modelled from the spec: \<^verbatim>\<open>ClearTT\<close> is defined in the transposition-table unit, outside
  init.cpp; section 4.3 says of Clear that it "drops all entries". The table keeps its slots
  and every slot becomes empty.\<close>

definition ClearTT :: "'e option list \<Rightarrow> 'e option list" where
  "ClearTT tt = map (\<lambda>_. None) tt"

text \<open>Modelled from the spec: \<^verbatim>\<open>ParsePosition\<close> belongs to the protocol layer, outside
  init.cpp; section 6 says that the position parser "produces a Position value (piece
  placement, side to move, castling rights, en-passant square, half-move clock) from a
  textual description". The board fields become the parser's reading of the command and
  the played-position history is left as it is.\<close>

definition ParsePosition :: "(string \<Rightarrow> 'b) \<Rightarrow> string \<Rightarrow> 'b Position \<Rightarrow> 'b Position" where
  "ParsePosition parse command p = p\<lparr>board := parse command\<rparr>"

text \<open>
  One round of the outer loop of lines 201-206: \<^verbatim>\<open>pvLength[index] = 0\<close>, then the inner
  loop over \<^verbatim>\<open>index2\<close>.
\<close>

definition clean_pv_row :: "nat \<Rightarrow> Move \<Rightarrow> nat \<Rightarrow> PvTable \<Rightarrow> PvTable" where
  "clean_pv_row maxdepth nomove index pv =
     fold (\<lambda>index2 pv. pv\<lparr>pvArray := set2 (pvArray pv) index index2 nomove\<rparr>)
       [0..<maxdepth + 1]
       (pv\<lparr>pvLength := (pvLength pv)(index := 0)\<rparr>)"

text \<open>
  The statements of lines 198-226, in order.
\<close>

definition InitNewGame ::
  "('b, 'h, 'p) newgame_env \<Rightarrow> ('b, 'h, 'e, 'p) engine \<Rightarrow> ('b, 'h, 'e, 'p) engine" where
  "InitNewGame env E =
     (let sd1 = CleanHistories env (sd (td E));
          pv1 = fold (clean_pv_row (cfg_MAXDEPTH env) (cfg_NOMOVE env)) [0..<cfg_MAXDEPTH env + 1]
                  (pvTable (td E));
          sd2 = sd1\<lparr>counterMoves := (\<lambda>_ _. memset_int (cfg_NOMOVE env))\<rparr>;
          info1 = (info (td E))\<lparr>starttime := GetTimeMs (tv_sec env) (tv_usec env),
                     stopped := 0, nodes := 0, seldepth := 0\<rparr>;
          tt1 = ClearTT (TT E);
          helpers1 = StopHelperThreads env (helper_threads E);
          pos1 = (pos (td E))\<lparr>played_positions := []\<rparr>;
          pos2 = ParsePosition (parse_text env) ''position startpos'' pos1
      in E\<lparr>td := \<lparr>pos = pos2, sd = sd2, info = info1, pvTable = pv1\<rparr>,
           TT := tt1, threads_data := [], helper_threads := helpers1\<rparr>)"

text \<open>
  An environment and a worker in mid-game for the examples.
\<close>

definition example_newgame_env :: "(string, unit, unit) newgame_env" where
  "example_newgame_env =
     \<lparr>cfg_MAXDEPTH = 2, cfg_NOMOVE = 0, CleanHistories = (\<lambda>s. s), StopHelperThreads = (\<lambda>p. p),
      parse_text = (\<lambda>text. text), tv_sec = 1, tv_usec = 5000\<rparr>"

definition example_engine :: "(string, unit, unit, unit) engine" where
  "example_engine =
     \<lparr>td = \<lparr>pos = \<lparr>board = ''midgame'', played_positions = [1, 2, 3]\<rparr>,
             sd = \<lparr>counterMoves = (\<lambda>_ _. 9), histories = ()\<rparr>,
             info = \<lparr>starttime = 0, stopped = 1, nodes = 1000, seldepth = 12\<rparr>,
             pvTable = \<lparr>pvLength = (\<lambda>_. 4), pvArray = (\<lambda>_ _. 77)\<rparr>\<rparr>,
      TT = [Some (), None, Some ()], threads_data = [], helper_threads = ()\<rparr>"

subsection \<open>InitAttackTables\<close>

text \<open>
  What InitAttackTables uses and init.cpp does not define: the colour constants, the mask
  and ray-cast helpers of attack.h, and the magic numbers and relevant-bit constants of
  magic.h. The shift \<^verbatim>\<open>64 - bishop_relevant_bits\<close> is the same for every square.
\<close>

record attack_env =
  WHITE :: nat
  BLACK :: nat
  MaskPawnAttacks :: "nat \<Rightarrow> nat \<Rightarrow> Bitboard"
  MaskKnightAttacks :: "nat \<Rightarrow> Bitboard"
  MaskKingAttacks :: "nat \<Rightarrow> Bitboard"
  MaskBishopAttacks :: "nat \<Rightarrow> Bitboard"
  MaskRookAttacks :: "nat \<Rightarrow> Bitboard"
  BishopAttacksOnTheFly :: "nat \<Rightarrow> Bitboard \<Rightarrow> Bitboard"
  RookAttacksOnTheFly :: "nat \<Rightarrow> Bitboard \<Rightarrow> Bitboard"
  bishop_magic_numbers :: "nat \<Rightarrow> Bitboard"
  rook_magic_numbers :: "nat \<Rightarrow> Bitboard"
  bishop_relevant_bits :: nat
  rook_relevant_bits :: nat

text \<open>
  The tables of lines 25-43; \<^verbatim>\<open>bishop_attacks[64][512]\<close> and \<^verbatim>\<open>rook_attacks[64][4096]\<close>.
\<close>

record attack_tables =
  pawn_attacks :: "nat \<Rightarrow> nat \<Rightarrow> Bitboard"
  knight_attacks :: "nat \<Rightarrow> Bitboard"
  king_attacks :: "nat \<Rightarrow> Bitboard"
  bishop_masks :: "nat \<Rightarrow> Bitboard"
  rook_masks :: "nat \<Rightarrow> Bitboard"
  bishop_attacks :: "nat \<Rightarrow> nat \<Rightarrow> Bitboard"
  rook_attacks :: "nat \<Rightarrow> nat \<Rightarrow> Bitboard"

text \<open>Modelled from the spec: \<^verbatim>\<open>CountBits\<close> is defined outside init.cpp. Section 4.1
  speaks of the "2^popcount subsets" of a mask: the population count of the bitboard.\<close>

definition CountBits :: "Bitboard \<Rightarrow> nat" where
  "CountBits b = length (filter (bit b) [0..<64])"

text \<open>Modelled from the spec: \<^verbatim>\<open>GetLsbIndex\<close> is defined outside init.cpp. It is the lowest
  set square of a bitboard, the first step of going through the squares of a mask
  (section 4.1); 64 stands for "none", which SetOccupancy never meets when \<open>bits_in_mask\<close>
  is the population count.\<close>

definition GetLsbIndex :: "Bitboard \<Rightarrow> nat" where
  "GetLsbIndex b = (case filter (bit b) [0..<64] of [] \<Rightarrow> 64 | square # _ \<Rightarrow> square)"

text \<open>Modelled from the spec: \<^verbatim>\<open>pop_bit\<close> is defined outside init.cpp. It clears one square of
  a bitboard (section 3: bit \<open>i\<close> stands for square \<open>i\<close>).\<close>

definition pop_bit :: "Bitboard \<Rightarrow> nat \<Rightarrow> Bitboard" where
  "pop_bit b square = b AND NOT (push_bit square 1)"

text \<open>Modelled from the spec: \<^verbatim>\<open>SetOccupancy\<close> is defined outside init.cpp. Section 4.1 says
  that the build "enumerates every subset of that mask (2^popcount subsets)". One step takes
  the lowest remaining square of the mask and puts it into the occupancy when bit \<open>count\<close>
  of \<open>index\<close> is set.\<close>

definition SetOccupancy_step :: "nat \<Rightarrow> nat \<Rightarrow> Bitboard \<times> Bitboard \<Rightarrow> Bitboard \<times> Bitboard" where
  "SetOccupancy_step index count s =
     (let attack_mask = fst s; occupancy = snd s;
          square = GetLsbIndex attack_mask
      in (pop_bit attack_mask square,
          if bit index count then occupancy OR push_bit square 1 else occupancy))"

text \<open>Modelled from the spec: the subset number \<open>index\<close> of the mask (section 4.1, as above),
  built in \<open>bits_in_mask\<close> steps from the empty occupancy.\<close>

definition SetOccupancy :: "nat \<Rightarrow> nat \<Rightarrow> Bitboard \<Rightarrow> Bitboard" where
  "SetOccupancy index bits_in_mask attack_mask =
     snd (fold (SetOccupancy_step index) [0..<bits_in_mask] (attack_mask, 0))"

text \<open>
  \<^verbatim>\<open>(occupancy * magic) >> (64 - relevant_bits)\<close> on 64-bit unsigned integers (lines 102
  and 125), read as an array index.
\<close>

definition magic_index :: "Bitboard \<Rightarrow> nat \<Rightarrow> Bitboard \<Rightarrow> nat" where
  "magic_index magic relevant_bits occupancy =
     unat (drop_bit (64 - relevant_bits) (occupancy * magic))"

text \<open>
  The bodies of the two inner loops (lines 98-105 and 121-128).
\<close>

definition bishop_body ::
  "attack_env \<Rightarrow> nat \<Rightarrow> nat \<Rightarrow> Bitboard \<Rightarrow> nat \<Rightarrow> attack_tables \<Rightarrow> attack_tables" where
  "bishop_body env square relevant_bits_count bishop_mask index T =
     (let occupancy = SetOccupancy index relevant_bits_count bishop_mask;
          magic_idx = magic_index (bishop_magic_numbers env square) (bishop_relevant_bits env)
                        occupancy
      in T\<lparr>bishop_attacks := set2 (bishop_attacks T) square magic_idx
                                (BishopAttacksOnTheFly env square occupancy)\<rparr>)"

definition rook_body ::
  "attack_env \<Rightarrow> nat \<Rightarrow> nat \<Rightarrow> Bitboard \<Rightarrow> nat \<Rightarrow> attack_tables \<Rightarrow> attack_tables" where
  "rook_body env square relevant_bits_count rook_mask index T =
     (let occupancy = SetOccupancy index relevant_bits_count rook_mask;
          magic_idx = magic_index (rook_magic_numbers env square) (rook_relevant_bits env)
                        occupancy
      in T\<lparr>rook_attacks := set2 (rook_attacks T) square magic_idx
                              (RookAttacksOnTheFly env square occupancy)\<rparr>)"

text \<open>
  The body of the loop over the squares (lines 75-129). \<^verbatim>\<open>1 << relevant_bits_count\<close> is
  \<open>2 ^ relevant_bits_count\<close> while the count is below 31.
\<close>

definition square_body :: "attack_env \<Rightarrow> nat \<Rightarrow> attack_tables \<Rightarrow> attack_tables" where
  "square_body env square T =
     (let T1 = T\<lparr>pawn_attacks := set2 (pawn_attacks T) (WHITE env) square
                                    (MaskPawnAttacks env (WHITE env) square)\<rparr>;
          T2 = T1\<lparr>pawn_attacks := set2 (pawn_attacks T1) (BLACK env) square
                                    (MaskPawnAttacks env (BLACK env) square)\<rparr>;
          T3 = T2\<lparr>knight_attacks := (knight_attacks T2)(square := MaskKnightAttacks env square)\<rparr>;
          T4 = T3\<lparr>king_attacks := (king_attacks T3)(square := MaskKingAttacks env square)\<rparr>;
          T5 = T4\<lparr>bishop_masks := (bishop_masks T4)(square := MaskBishopAttacks env square)\<rparr>;
          bishop_mask = bishop_masks T5 square;
          relevant_bits_count = CountBits bishop_mask;
          occupancy_indices = 2 ^ relevant_bits_count;
          T6 = fold (bishop_body env square relevant_bits_count bishop_mask)
                 [0..<occupancy_indices] T5;
          T7 = T6\<lparr>rook_masks := (rook_masks T6)(square := MaskRookAttacks env square)\<rparr>;
          rook_mask = rook_masks T7 square;
          relevant_bits_count = CountBits rook_mask;
          occupancy_indices = 2 ^ relevant_bits_count
      in fold (rook_body env square relevant_bits_count rook_mask) [0..<occupancy_indices] T7)"

definition InitAttackTables :: "attack_env \<Rightarrow> attack_tables \<Rightarrow> attack_tables" where
  "InitAttackTables env T = fold (square_body env) [0..<64] T"

text \<open>
  The validity of a square's constants that the build relies on: two occupancies inside
  the mask may share an index only if they have the same attack set.
\<close>

definition magic_valid :: "Bitboard \<Rightarrow> Bitboard \<Rightarrow> nat \<Rightarrow> (Bitboard \<Rightarrow> Bitboard) \<Rightarrow> bool" where
  "magic_valid msk magic relevant_bits attacks \<longleftrightarrow>
     (\<forall>occ1 occ2. occ1 AND NOT msk = 0 \<and> occ2 AND NOT msk = 0
        \<and> magic_index magic relevant_bits occ1 = magic_index magic relevant_bits occ2
        \<longrightarrow> attacks occ1 = attacks occ2)"

text \<open>
  The set squares of a bitboard in ascending order, and the index at which SetOccupancy
  produces a given subset of them.
\<close>

definition bits_of :: "Bitboard \<Rightarrow> nat list" where
  "bits_of b = filter (bit b) [0..<64]"

fun gather :: "Bitboard \<Rightarrow> nat list \<Rightarrow> nat" where
  "gather occ [] = 0"
| "gather occ (p # ps) = (if bit occ p then 1 else 0) + 2 * gather occ ps"

subsection \<open>initializeLookupTables\<close>

text \<open>
  What initializeLookupTables uses and init.cpp does not define: the rank, file and
  diagonal numbering of the squares and the two attack lookups.
\<close>

record lookup_env =
  get_file :: "nat \<Rightarrow> nat"
  get_rank :: "nat \<Rightarrow> nat"
  get_diagonal :: "nat \<Rightarrow> nat"
  get_antidiagonal :: "nat \<Rightarrow> nat"
  GetRookAttacks :: "nat \<Rightarrow> Bitboard \<Rightarrow> Bitboard"
  GetBishopAttacks :: "nat \<Rightarrow> Bitboard \<Rightarrow> Bitboard"

text \<open>
  The body of the inner loop (lines 138-142) and the two loops. An entry that no branch
  writes keeps its value, zero for the zero-initialised global.
\<close>

definition between_body ::
  "lookup_env \<Rightarrow> nat \<Rightarrow> nat \<Rightarrow> (nat \<Rightarrow> nat \<Rightarrow> Bitboard) \<Rightarrow> (nat \<Rightarrow> nat \<Rightarrow> Bitboard)" where
  "between_body env sq1 sq2 SQUARES_BETWEEN_BB =
     (let sqs = push_bit sq1 1 OR push_bit sq2 1
      in if get_file env sq1 = get_file env sq2 \<or> get_rank env sq1 = get_rank env sq2
         then set2 SQUARES_BETWEEN_BB sq1 sq2
                (GetRookAttacks env sq1 sqs AND GetRookAttacks env sq2 sqs)
         else if get_diagonal env sq1 = get_diagonal env sq2
                 \<or> get_antidiagonal env sq1 = get_antidiagonal env sq2
         then set2 SQUARES_BETWEEN_BB sq1 sq2
                (GetBishopAttacks env sq1 sqs AND GetBishopAttacks env sq2 sqs)
         else SQUARES_BETWEEN_BB)"

definition initializeLookupTables ::
  "lookup_env \<Rightarrow> (nat \<Rightarrow> nat \<Rightarrow> Bitboard) \<Rightarrow> (nat \<Rightarrow> nat \<Rightarrow> Bitboard)" where
  "initializeLookupTables env SQUARES_BETWEEN_BB =
     fold (\<lambda>sq1. fold (between_body env sq1) [0..<64]) [0..<64] SQUARES_BETWEEN_BB"

text \<open>Modelled from the spec: the geometry helpers are defined outside init.cpp. Section 3
  fixes the "little-endian rank-file mapping", square = 8 * rank + file; a pair (rank, file)
  is on the board when both are between 0 and 7.\<close>

definition on_board :: "int \<times> int \<Rightarrow> bool" where
  "on_board p \<longleftrightarrow> 0 \<le> fst p \<and> fst p \<le> 7 \<and> 0 \<le> snd p \<and> snd p \<le> 7"

text \<open>Modelled from the spec: the squares met from a square in one direction, up to the edge
  of the board (section 4.1: "ray-casting in each direction").\<close>

definition ray_squares :: "int \<Rightarrow> int \<Rightarrow> nat \<Rightarrow> nat list" where
  "ray_squares dr df square =
     map (\<lambda>p. nat (fst p * 8 + snd p))
       (takeWhile on_board
          (map (\<lambda>k. (int (square div 8) + k * dr, int (square mod 8) + k * df))
             [1, 2, 3, 4, 5, 6, 7]))"

text \<open>Modelled from the spec: the squares of a ray that are attacked (section 4.1: "until
  blocked"), up to and including the first occupied one.\<close>

fun cast_ray :: "Bitboard \<Rightarrow> nat list \<Rightarrow> Bitboard" where
  "cast_ray block [] = 0"
| "cast_ray block (sq # sqs) =
     (if bit block sq then push_bit sq 1 else push_bit sq 1 OR cast_ray block sqs)"

text \<open>Modelled from the spec: the bitboard of a list of squares (section 3: bit \<open>i\<close> stands for
  square \<open>i\<close>).\<close>

definition squares_bb :: "nat list \<Rightarrow> Bitboard" where
  "squares_bb sqs = fold (\<lambda>sq b. b OR push_bit sq 1) sqs 0"

text \<open>Modelled from the spec: \<^verbatim>\<open>RookAttacksOnTheFly\<close> is defined outside init.cpp; "the true
  line-of-sight attack set by ray-casting in each direction until blocked" (section 4.1),
  along the rank and the file.\<close>

definition chess_rook_on_the_fly :: "nat \<Rightarrow> Bitboard \<Rightarrow> Bitboard" where
  "chess_rook_on_the_fly square block =
     cast_ray block (ray_squares 1 0 square) OR cast_ray block (ray_squares (- 1) 0 square)
     OR cast_ray block (ray_squares 0 1 square) OR cast_ray block (ray_squares 0 (- 1) square)"

text \<open>Modelled from the spec: \<^verbatim>\<open>BishopAttacksOnTheFly\<close> is defined outside init.cpp; the same
  ray-cast (section 4.1) along the four diagonal directions.\<close>

definition chess_bishop_on_the_fly :: "nat \<Rightarrow> Bitboard \<Rightarrow> Bitboard" where
  "chess_bishop_on_the_fly square block =
     cast_ray block (ray_squares 1 1 square) OR cast_ray block (ray_squares (- 1) 1 square)
     OR cast_ray block (ray_squares 1 (- 1) square) OR cast_ray block (ray_squares (- 1) (- 1) square)"

text \<open>Modelled from the spec: \<^verbatim>\<open>MaskRookAttacks\<close> is defined outside init.cpp; the "board
  squares that can block a slider from that square, excluding edge squares" (section 4.1),
  that is every ray without its last square.\<close>

definition chess_rook_mask :: "nat \<Rightarrow> Bitboard" where
  "chess_rook_mask square =
     squares_bb (butlast (ray_squares 1 0 square)) OR squares_bb (butlast (ray_squares (- 1) 0 square))
     OR squares_bb (butlast (ray_squares 0 1 square)) OR squares_bb (butlast (ray_squares 0 (- 1) square))"

text \<open>Modelled from the spec: \<^verbatim>\<open>MaskBishopAttacks\<close> is defined outside init.cpp; the relevant
  squares of a bishop (section 4.1), every diagonal ray without its last square.\<close>

definition chess_bishop_mask :: "nat \<Rightarrow> Bitboard" where
  "chess_bishop_mask square =
     squares_bb (butlast (ray_squares 1 1 square)) OR squares_bb (butlast (ray_squares (- 1) 1 square))
     OR squares_bb (butlast (ray_squares 1 (- 1) square))
     OR squares_bb (butlast (ray_squares (- 1) (- 1) square))"

text \<open>Modelled from the spec: \<^verbatim>\<open>GetRookAttacks\<close>, \<^verbatim>\<open>GetBishopAttacks\<close> and the tables
  \<^verbatim>\<open>get_file\<close>, \<^verbatim>\<open>get_rank\<close>, \<^verbatim>\<open>get_diagonal\<close>, \<^verbatim>\<open>get_antidiagonal\<close> are defined
  outside init.cpp. By section 4.1 the query masks "the given occupancy bitboard down to the
  square's relevant-occupancy mask" and "returns the exact attack set". Two squares share a
  diagonal when \<open>rank - file\<close> agrees and an anti-diagonal when \<open>rank + file\<close> agrees.\<close>

definition chess_lookup_env :: lookup_env where
  "chess_lookup_env =
     \<lparr>get_file = (\<lambda>sq. sq mod 8), get_rank = (\<lambda>sq. sq div 8),
      get_diagonal = (\<lambda>sq. 7 + sq div 8 - sq mod 8),
      get_antidiagonal = (\<lambda>sq. sq div 8 + sq mod 8),
      GetRookAttacks = (\<lambda>sq occ. chess_rook_on_the_fly sq (occ AND chess_rook_mask sq)),
      GetBishopAttacks = (\<lambda>sq occ. chess_bishop_on_the_fly sq (occ AND chess_bishop_mask sq))\<rparr>"

text \<open>
  The value the loop body leaves in the entry of a pair, given the old one.
\<close>

definition between_value :: "lookup_env \<Rightarrow> nat \<Rightarrow> nat \<Rightarrow> Bitboard \<Rightarrow> Bitboard" where
  "between_value env sq1 sq2 old =
     (let sqs = push_bit sq1 1 OR push_bit sq2 1
      in if get_file env sq1 = get_file env sq2 \<or> get_rank env sq1 = get_rank env sq2
         then GetRookAttacks env sq1 sqs AND GetRookAttacks env sq2 sqs
         else if get_diagonal env sq1 = get_diagonal env sq2
                 \<or> get_antidiagonal env sq1 = get_antidiagonal env sq2
         then GetBishopAttacks env sq1 sqs AND GetBishopAttacks env sq2 sqs
         else old)"

subsection \<open>Example constants for one square\<close>

text \<open>
  A check for magic numbers that are sums of few powers of two, \<open>2 ^ c\<close> for \<open>c\<close> in
  \<open>cs\<close>: the shifted copies of the mask do not overlap, and every square of the mask has a
  shift that moves it into the index bits, where no other shift puts a square of the mask.
\<close>

definition sparse_magic_ok :: "Bitboard \<Rightarrow> nat list \<Rightarrow> nat \<Rightarrow> bool" where
  "sparse_magic_ok m cs b \<longleftrightarrow>
     distinct cs \<and> 0 < b \<and> b \<le> 64
     \<and> (\<forall>c\<in>set cs. \<forall>c'\<in>set cs. c \<noteq> c' \<longrightarrow> push_bit c m AND push_bit c' m = 0)
     \<and> (\<forall>p\<in>set (bits_of m). \<exists>c\<in>set cs. 64 - b \<le> p + c \<and> p + c < 64
           \<and> (\<forall>c'\<in>set cs. c' \<noteq> c \<longrightarrow> c' \<le> p + c \<longrightarrow> \<not> bit m (p + c - c')))"

text \<open>Modelled from the spec: the pawn, knight and king masks are defined outside init.cpp
  and computed "directly from square geometry" (section 4.1): the squares on the board at
  given offsets from a square.\<close>

definition leaper_bb :: "(int \<times> int) list \<Rightarrow> nat \<Rightarrow> Bitboard" where
  "leaper_bb offsets square =
     squares_bb (map (\<lambda>p. nat (fst p * 8 + snd p))
       (filter on_board
          (map (\<lambda>d. (int (square div 8) + fst d, int (square mod 8) + snd d)) offsets)))"

text \<open>Modelled from the spec: \<^verbatim>\<open>MaskPawnAttacks\<close> is defined outside init.cpp; a pawn attacks
  the two squares diagonally ahead of it (section 4.1, square geometry), side 0 moving up
  the ranks.\<close>

definition chess_pawn_mask :: "nat \<Rightarrow> nat \<Rightarrow> Bitboard" where
  "chess_pawn_mask side square =
     leaper_bb (if side = 0 then [(1, - 1), (1, 1)] else [(- 1, - 1), (- 1, 1)]) square"

text \<open>Modelled from the spec: \<^verbatim>\<open>MaskKnightAttacks\<close> is defined outside init.cpp; the eight
  knight jumps that stay on the board (section 4.1, square geometry).\<close>

definition chess_knight_mask :: "nat \<Rightarrow> Bitboard" where
  "chess_knight_mask square =
     leaper_bb [(2, 1), (2, - 1), (- 2, 1), (- 2, - 1), (1, 2), (1, - 2), (- 1, 2), (- 1, - 2)]
       square"

text \<open>Modelled from the spec: \<^verbatim>\<open>MaskKingAttacks\<close> is defined outside init.cpp; the
  neighbouring squares (section 4.1, square geometry).\<close>

definition chess_king_mask :: "nat \<Rightarrow> Bitboard" where
  "chess_king_mask square =
     leaper_bb [(1, 0), (- 1, 0), (0, 1), (0, - 1), (1, 1), (1, - 1), (- 1, 1), (- 1, - 1)]
       square"

text \<open>
  Constants for the examples: the geometry above, the relevant bits 9 and 12 that fit the
  declared rows, and one sparse magic number for each piece, valid on square b2 (square 9).
  The engine's own magic numbers are in magic.h, outside init.cpp.
\<close>

definition example_attack_env :: attack_env where
  "example_attack_env =
     \<lparr>WHITE = 0, BLACK = 1,
      MaskPawnAttacks = chess_pawn_mask, MaskKnightAttacks = chess_knight_mask,
      MaskKingAttacks = chess_king_mask,
      MaskBishopAttacks = chess_bishop_mask, MaskRookAttacks = chess_rook_mask,
      BishopAttacksOnTheFly = chess_bishop_on_the_fly,
      RookAttacksOnTheFly = chess_rook_on_the_fly,
      bishop_magic_numbers = (\<lambda>_. 0x2020202020), rook_magic_numbers = (\<lambda>_. 0x200010000800),
      bishop_relevant_bits = 9, rook_relevant_bits = 12\<rparr>"

text \<open>
  The attack tables as the program starts.
\<close>

definition static_zero_attack_tables :: attack_tables where
  "static_zero_attack_tables =
     \<lparr>pawn_attacks = (\<lambda>_ _. 0), knight_attacks = (\<lambda>_. 0), king_attacks = (\<lambda>_. 0),
      bishop_masks = (\<lambda>_. 0), rook_masks = (\<lambda>_. 0),
      bishop_attacks = (\<lambda>_ _. 0), rook_attacks = (\<lambda>_ _. 0)\<rparr>"

subsection \<open>The query operation\<close>

text \<open>Modelled from the spec: the query operation of section 4.1 for a bishop, "mask the given
  occupancy bitboard down to the square's relevant-occupancy mask, multiply by the magic
  constant, shift, and index".\<close>

definition GetBishopAttacks_lookup :: "attack_env \<Rightarrow> attack_tables \<Rightarrow> nat \<Rightarrow> Bitboard \<Rightarrow> Bitboard" where
  "GetBishopAttacks_lookup env T square occupancy =
     bishop_attacks T square
       (magic_index (bishop_magic_numbers env square) (bishop_relevant_bits env)
          (occupancy AND bishop_masks T square))"

text \<open>Modelled from the spec: the query operation of section 4.1 for a rook, as for the
  bishop.\<close>

definition GetRookAttacks_lookup :: "attack_env \<Rightarrow> attack_tables \<Rightarrow> nat \<Rightarrow> Bitboard \<Rightarrow> Bitboard" where
  "GetRookAttacks_lookup env T square occupancy =
     rook_attacks T square
       (magic_index (rook_magic_numbers env square) (rook_relevant_bits env)
          (occupancy AND rook_masks T square))"

section \<open>Properties\<close>

subsection \<open>Facts about InitReductions\<close>

lemma set2_apply: "set2 a i j v i' j' = (if i' = i \<and> j' = j then v else a i' j')"
  by (simp add: set2_def)

lemma set3_apply:
  "set3 a b i j v b' i' j' = (if b' = b \<and> i' = i \<and> j' = j then v else a b' i' j')"
  by (simp add: set3_def set2_apply)

lemma reductions_body_margins [simp]:
  "lmp_margin (reductions_body i j T) = lmp_margin T"
  "see_margin (reductions_body i j T) = see_margin T"
  by (simp_all add: reductions_body_def Let_def)

lemma reductions_body_apply:
  "reductions (reductions_body i j T) b i' j' =
     (if b < 2 \<and> i' = i \<and> j' = j then lmr_value b i j else reductions T b i' j')"
  by (auto simp: reductions_body_def Let_def set3_apply lmr_value_def)

lemma inner_fold_margins [simp]:
  "lmp_margin (fold (\<lambda>j. reductions_body i j) js T) = lmp_margin T"
  "see_margin (fold (\<lambda>j. reductions_body i j) js T) = see_margin T"
  by (induction js arbitrary: T) simp_all

lemma inner_fold_apply:
  "reductions (fold (\<lambda>j. reductions_body i j) js T) b i' j' =
     (if b < 2 \<and> i' = i \<and> j' \<in> set js then lmr_value b i j' else reductions T b i' j')"
  by (induction js arbitrary: T) (auto simp: reductions_body_apply)

lemma outer_fold_margins [simp]:
  "lmp_margin (fold (\<lambda>i. fold (\<lambda>j. reductions_body i j) js) is T) = lmp_margin T"
  "see_margin (fold (\<lambda>i. fold (\<lambda>j. reductions_body i j) js) is T) = see_margin T"
  by (induction "is" arbitrary: T) simp_all

lemma outer_fold_apply:
  "reductions (fold (\<lambda>i. fold (\<lambda>j. reductions_body i j) js) is T) b i' j' =
     (if b < 2 \<and> i' \<in> set is \<and> j' \<in> set js then lmr_value b i' j' else reductions T b i' j')"
  by (induction "is" arbitrary: T) (auto simp: inner_fold_apply)

lemma margins_body_reductions [simp]:
  "reductions (margins_body d T) = reductions T"
  by (simp add: margins_body_def Let_def)

lemma margins_fold_reductions [simp]:
  "reductions (fold margins_body ds T) = reductions T"
  by (induction ds arbitrary: T) simp_all

lemma margins_body_apply:
  "lmp_margin (margins_body d T) d' k =
     (if d' = d \<and> k < 2 then lmp_value d k else lmp_margin T d' k)"
  "see_margin (margins_body d T) d' k =
     (if d' = d \<and> k < 2 then see_value d k else see_margin T d' k)"
  by (auto simp: margins_body_def Let_def set2_apply lmp_value_def see_value_def)

lemma margins_fold_apply:
  "lmp_margin (fold margins_body ds T) d' k =
     (if d' \<in> set ds \<and> k < 2 then lmp_value d' k else lmp_margin T d' k)"
  "see_margin (fold margins_body ds T) d' k =
     (if d' \<in> set ds \<and> k < 2 then see_value d' k else see_margin T d' k)"
  by (induction ds arbitrary: T) (auto simp: margins_body_apply)

lemma InitReductions_reductions:
  "reductions (InitReductions M T) b i j =
     (if b < 2 \<and> 1 \<le> i \<and> i < M \<and> 1 \<le> j \<and> j < M then lmr_value b i j
      else if b < 2 \<and> i = 0 \<and> j = 0 then 0
      else reductions T b i j)"
  by (auto simp: InitReductions_def Let_def outer_fold_apply set3_apply)

lemma InitReductions_lmp:
  "lmp_margin (InitReductions M T) d k =
     (if d < M \<and> k < 2 then lmp_value d k else lmp_margin T d k)"
  by (simp add: InitReductions_def Let_def margins_fold_apply)

lemma InitReductions_see:
  "see_margin (InitReductions M T) d k =
     (if d < M \<and> k < 2 then see_value d k else see_margin T d k)"
  by (simp add: InitReductions_def Let_def margins_fold_apply)

lemma double_to_int_mono: "x \<le> y \<Longrightarrow> double_to_int x \<le> double_to_int y"
proof -
  assume xy: "x \<le> y"
  consider "0 \<le> x" | "x < 0" "0 \<le> y" | "y < 0" by linarith
  then show ?thesis
  proof cases
    case 1
    with xy show ?thesis by (simp add: double_to_int_def floor_mono)
  next
    case 2
    have "\<lceil>x\<rceil> \<le> 0" using 2(1) by (simp add: ceiling_le_iff)
    moreover have "0 \<le> \<lfloor>y\<rfloor>" using 2(2) by simp
    moreover have "double_to_int x = \<lceil>x\<rceil>" "double_to_int y = \<lfloor>y\<rfloor>"
      using 2 by (simp_all add: double_to_int_def)
    ultimately show ?thesis by linarith
  next
    case 3
    with xy show ?thesis by (simp add: double_to_int_def ceiling_mono)
  qed
qed

lemma lmr_formula_le:
  assumes "1 \<le> i" "1 \<le> j"
  shows "- 0.25 + ln (real i) * ln (real j) / 2.25 \<le> 1.00 + ln (real i) * ln (real j) / 2.00"
proof -
  have "0 \<le> ln (real i)" "0 \<le> ln (real j)" using assms by simp_all
  then have L: "0 \<le> ln (real i) * ln (real j)" by simp
  define L where "L = ln (real i) * ln (real j)"
  have "0 \<le> L" using L by (simp add: L_def)
  then have "- 0.25 + L / 2.25 \<le> 1.00 + L / 2.00" by (simp add: field_simps)
  then show ?thesis by (simp add: L_def)
qed

text \<open>
  C5. Both late-move-reduction tables are filled from the product of the logarithms of
  depth \<open>i\<close> and move index \<open>j\<close>: table 0 from \<open>-0.25 + ln i * ln j / 2.25\<close>, table 1 from
  \<open>1.00 + ln i * ln j / 2.00\<close>, each truncated to \<^verbatim>\<open>int\<close>; for all \<open>i, j \<ge> 1\<close> the second
  formula is at least the first, and so is the stored entry.
\<close>

theorem InitReductions_lmr_formulas:
  assumes "1 \<le> i" "i < MAXDEPTH" "1 \<le> j" "j < MAXDEPTH"
  shows "reductions (InitReductions MAXDEPTH T) 0 i j =
           double_to_int (- 0.25 + ln (real i) * ln (real j) / 2.25)
       \<and> reductions (InitReductions MAXDEPTH T) 1 i j =
           double_to_int (1.00 + ln (real i) * ln (real j) / 2.00)
       \<and> - 0.25 + ln (real i) * ln (real j) / 2.25 \<le> 1.00 + ln (real i) * ln (real j) / 2.00
       \<and> reductions (InitReductions MAXDEPTH T) 0 i j
           \<le> reductions (InitReductions MAXDEPTH T) 1 i j"
proof -
  have le: "- 0.25 + ln (real i) * ln (real j) / 2.25 \<le> 1.00 + ln (real i) * ln (real j) / 2.00"
    using assms by (intro lmr_formula_le) simp_all
  have r0: "reductions (InitReductions MAXDEPTH T) 0 i j =
              double_to_int (- 0.25 + ln (real i) * ln (real j) / 2.25)"
    using assms by (simp add: InitReductions_reductions lmr_value_def)
  have r1: "reductions (InitReductions MAXDEPTH T) 1 i j =
              double_to_int (1.00 + ln (real i) * ln (real j) / 2.00)"
    using assms by (simp add: InitReductions_reductions lmr_value_def)
  show ?thesis using le r0 r1 double_to_int_mono [OF le] by simp
qed

theorem InitReductions_lmr_formulas_witness:
  "(1::nat) \<le> 1 \<and> (1::nat) < 2
   \<and> reductions (InitReductions 2 static_zero_tables) 0 1 1 = 0
   \<and> reductions (InitReductions 2 static_zero_tables) 1 1 1 = 1
   \<and> reductions (InitReductions 2 static_zero_tables) 0 1 1
       \<le> reductions (InitReductions 2 static_zero_tables) 1 1 1"
  using InitReductions_lmr_formulas [of 1 2 1 static_zero_tables]
  by (simp add: double_to_int_def ceiling_minus)

text \<open>
  The comparison of the two entries does not rest on exact arithmetic: it holds for any two
  non-negative logarithm values and any rounding of the product, the quotients and the
  sums that is monotone and does not round zero below zero.
\<close>

lemma lmr_comparison_rounded:
  fixes rnd :: "real \<Rightarrow> real"
  assumes mono: "\<And>x y. x \<le> y \<Longrightarrow> rnd x \<le> rnd y" and zero: "0 \<le> rnd 0"
    and logs: "0 \<le> l1" "0 \<le> l2"
  shows "double_to_int (rnd (- 0.25 + rnd (rnd (l1 * l2) / 2.25)))
       \<le> double_to_int (rnd (1.00 + rnd (rnd (l1 * l2) / 2.00)))"
proof -
  have "0 \<le> l1 * l2" using logs by simp
  then have "rnd 0 \<le> rnd (l1 * l2)" by (rule mono)
  then have p: "0 \<le> rnd (l1 * l2)" using zero by linarith
  define a where "a = rnd (l1 * l2)"
  have "a / 2.25 \<le> a / 2.00" using p by (simp add: a_def field_simps)
  then have "rnd (a / 2.25) \<le> rnd (a / 2.00)" by (rule mono)
  then have "- 0.25 + rnd (a / 2.25) \<le> 1.00 + rnd (a / 2.00)" by simp
  then have "rnd (- 0.25 + rnd (a / 2.25)) \<le> rnd (1.00 + rnd (a / 2.00))" by (rule mono)
  then show ?thesis unfolding a_def by (rule double_to_int_mono)
qed

lemma lmp_value_closed:
  "lmp_value d 0 = (3 + int d * int d) div 2" "lmp_value d 1 = 3 + int d * int d"
proof -
  have "(1.5::real) + 0.5 * (real d)\<^sup>2 = real_of_int (3 + int d * int d) / real_of_int 2"
    by (simp add: power2_eq_square field_simps)
  then have "\<lfloor>(1.5::real) + 0.5 * (real d)\<^sup>2\<rfloor> = (3 + int d * int d) div 2"
    by (simp only: floor_divide_of_int_eq)
  moreover have "(0::real) \<le> 1.5 + 0.5 * (real d)\<^sup>2" by simp
  ultimately show "lmp_value d 0 = (3 + int d * int d) div 2"
    by (simp add: lmp_value_def double_to_int_def)
  have "(3.0::real) + 1.0 * (real d)\<^sup>2 = real_of_int (3 + int d * int d)"
    by (simp add: power2_eq_square)
  then have "\<lfloor>(3.0::real) + 1.0 * (real d)\<^sup>2\<rfloor> = 3 + int d * int d"
    by (simp only: floor_of_int)
  moreover have "(0::real) \<le> 3.0 + 1.0 * (real d)\<^sup>2" by simp
  ultimately show "lmp_value d 1 = 3 + int d * int d"
    by (simp add: lmp_value_def double_to_int_def)
qed

lemma margins_in_int_range:
  assumes "d \<le> 8460"
  shows "- (2 ^ 31) \<le> see_value d k" "see_value d k \<le> 0"
    "0 \<le> lmp_value d k" "lmp_value d k < 2 ^ 31"
proof -
  have "int d * int d \<le> 8460 * 8460"
    using assms by (intro mult_mono) simp_all
  then have sq: "int d * int d \<le> 71571600" by simp
  have nn: "0 \<le> int d * int d" by simp
  show "- (2 ^ 31) \<le> see_value d k" "see_value d k \<le> 0"
    using sq nn assms by (simp_all add: see_value_def)
  have "lmp_value d k = (3 + int d * int d) div 2 \<or> lmp_value d k = 3 + int d * int d"
    using lmp_value_closed [of d] by (cases "k = 0") (simp_all add: lmp_value_def)
  then show "0 \<le> lmp_value d k" "lmp_value d k < 2 ^ 31"
    using sq nn by auto
qed

text \<open>
  C6. For every depth \<open>d < MAXDEPTH\<close> the late-move-pruning margins are the truncations of
  \<open>1.5 + 0.5 * d\<^sup>2\<close> (not improving, index 0) and of \<open>3.0 + 1.0 * d\<^sup>2\<close> (improving, index 1),
  that is \<open>(3 + d\<^sup>2) div 2\<close> and \<open>3 + d\<^sup>2\<close>, and the improving margin is strictly the larger.
\<close>

theorem InitReductions_lmp_margin:
  assumes "d < MAXDEPTH"
  shows "lmp_margin (InitReductions MAXDEPTH T) d 0 = double_to_int (1.5 + 0.5 * (real d)\<^sup>2)
       \<and> lmp_margin (InitReductions MAXDEPTH T) d 1 = double_to_int (3.0 + 1.0 * (real d)\<^sup>2)
       \<and> lmp_margin (InitReductions MAXDEPTH T) d 0 = (3 + int d * int d) div 2
       \<and> lmp_margin (InitReductions MAXDEPTH T) d 1 = 3 + int d * int d
       \<and> lmp_margin (InitReductions MAXDEPTH T) d 0 < lmp_margin (InitReductions MAXDEPTH T) d 1"
proof -
  have m0: "lmp_margin (InitReductions MAXDEPTH T) d 0 = lmp_value d 0"
    and m1: "lmp_margin (InitReductions MAXDEPTH T) d 1 = lmp_value d 1"
    using assms by (simp_all add: InitReductions_lmp)
  have "0 \<le> int d * int d" by simp
  then have "(3 + int d * int d) div 2 < 3 + int d * int d" by linarith
  then have "lmp_value d 0 < lmp_value d 1" by (simp only: lmp_value_closed)
  then show ?thesis
    using m0 m1 lmp_value_closed [of d] by (simp add: lmp_value_def)
qed

theorem InitReductions_lmp_margin_witness:
  "(3::nat) < 4
   \<and> lmp_margin (InitReductions 4 static_zero_tables) 3 0 = 6
   \<and> lmp_margin (InitReductions 4 static_zero_tables) 3 1 = 12
   \<and> lmp_margin (InitReductions 4 static_zero_tables) 3 0
       < lmp_margin (InitReductions 4 static_zero_tables) 3 1"
  using InitReductions_lmp_margin [of 3 4 static_zero_tables] by simp

text \<open>
  C7. For every depth \<open>d' < MAXDEPTH\<close> the static-exchange margins are \<open>-80 * d'\<close> for quiet
  moves (index 1) and \<open>-30 * d'\<^sup>2\<close> for the others (index 0); both are zero at depth 0, never
  positive, and do not increase with the depth (the entry at \<open>d'\<close> is at most the entry at any
  \<open>d \<le> d'\<close>).
\<close>

theorem InitReductions_see_margin:
  assumes "d \<le> d'" "d' < MAXDEPTH"
  shows "see_margin (InitReductions MAXDEPTH T) d' 1 = - 80 * int d'
       \<and> see_margin (InitReductions MAXDEPTH T) d' 0 = - 30 * int d' * int d'
       \<and> see_margin (InitReductions MAXDEPTH T) 0 1 = 0
       \<and> see_margin (InitReductions MAXDEPTH T) 0 0 = 0
       \<and> see_margin (InitReductions MAXDEPTH T) d' 1 \<le> 0
       \<and> see_margin (InitReductions MAXDEPTH T) d' 0 \<le> 0
       \<and> see_margin (InitReductions MAXDEPTH T) d' 1 \<le> see_margin (InitReductions MAXDEPTH T) d 1
       \<and> see_margin (InitReductions MAXDEPTH T) d' 0 \<le> see_margin (InitReductions MAXDEPTH T) d 0"
proof -
  have mono: "int d * int d \<le> int d' * int d'"
    using assms(1) by (intro mult_mono) simp_all
  have lt: "0 < MAXDEPTH" "d < MAXDEPTH" using assms by simp_all
  show ?thesis
    using assms lt mono by (simp add: InitReductions_see see_value_def)
qed

theorem InitReductions_see_margin_witness:
  "(2::nat) \<le> 3 \<and> (3::nat) < 4
   \<and> see_margin (InitReductions 4 static_zero_tables) 3 1 = - 240
   \<and> see_margin (InitReductions 4 static_zero_tables) 3 0 = - 270
   \<and> see_margin (InitReductions 4 static_zero_tables) 0 1 = 0
   \<and> see_margin (InitReductions 4 static_zero_tables) 0 0 = 0
   \<and> see_margin (InitReductions 4 static_zero_tables) 3 1
       \<le> see_margin (InitReductions 4 static_zero_tables) 2 1
   \<and> see_margin (InitReductions 4 static_zero_tables) 3 0
       \<le> see_margin (InitReductions 4 static_zero_tables) 2 0"
  using InitReductions_see_margin [of 2 3 4 static_zero_tables] by simp

text \<open>
  C9. InitReductions stores 0 in \<open>reductions[b][0][0]\<close> and otherwise writes
  \<open>reductions[b][i][j]\<close> only where \<open>i \<ge> 1\<close> and \<open>j \<ge> 1\<close>: an entry with exactly one index
  zero is left as it was, so it holds the 0 of static zero-initialisation.
\<close>

theorem InitReductions_zero_index:
  "(b < 2 \<longrightarrow> reductions (InitReductions MAXDEPTH T) b 0 0 = 0)
   \<and> ((i = 0) \<noteq> (j = 0) \<longrightarrow>
        reductions (InitReductions MAXDEPTH T) b i j = reductions T b i j
      \<and> reductions (InitReductions MAXDEPTH static_zero_tables) b i j = 0)
   \<and> (reductions (InitReductions MAXDEPTH T) b i j \<noteq> reductions T b i j \<longrightarrow>
        (i = 0 \<and> j = 0) \<or> (1 \<le> i \<and> 1 \<le> j))"
  by (auto simp: InitReductions_reductions static_zero_tables_def)

theorem InitReductions_zero_index_witness:
  "reductions (InitReductions 4 (static_zero_tables\<lparr>reductions := (\<lambda>_ _ _. 7)\<rparr>)) 1 0 0 = 0
   \<and> reductions (InitReductions 4 (static_zero_tables\<lparr>reductions := (\<lambda>_ _ _. 7)\<rparr>)) 1 0 3 = 7
   \<and> reductions (InitReductions 4 static_zero_tables) 1 0 3 = 0"
  using InitReductions_zero_index
    [of 1 4 "static_zero_tables\<lparr>reductions := (\<lambda>_ _ _. 7)\<rparr>" 0 3]
  by simp

subsection \<open>Facts about initHashKeys\<close>

lemma rng_state_0 [simp]: "rng_state rng g 0 = g"
  by (simp add: rng_state_def)

lemma rng_state_Suc: "rng_state rng g (Suc k) = snd (rng (rng_state rng g k))"
  by (simp add: rng_state_def)

lemma rng_state_add: "rng_state rng (rng_state rng g a) b = rng_state rng g (a + b)"
  by (metis rng_state_def funpow_add add.commute comp_apply)

lemma rng_step: "rng (rng_state rng g n) = (rng_draw rng g n, rng_state rng g (Suc n))"
  by (simp add: rng_draw_def rng_state_Suc)

lemma rng_draw_add: "rng_draw rng (rng_state rng g a) b = rng_draw rng g (a + b)"
  by (simp add: rng_draw_def rng_state_add)

text \<open>A loop that fills slots 0..n-1 of a list with successive draws.\<close>

lemma fill_list_update:
  assumes "n < length xs"
  shows "(map f [0..<n] @ drop n xs)[n := f n] = map f [0..<Suc n] @ drop (Suc n) xs"
proof -
  have "(map f [0..<n] @ drop n xs)[n := f n] = map f [0..<n] @ (drop n xs)[0 := f n]"
    by (simp add: list_update_append)
  also have "(drop n xs)[0 := f n] = f n # drop (Suc n) xs"
    using assms by (metis Cons_nth_drop_Suc list_update_code(2))
  finally show ?thesis by simp
qed

lemma enpassant_fold:
  assumes "n \<le> length (enpassant_keys K)"
  shows "fold (enpassant_key_step rng) [0..<n] (K, g) =
           (K\<lparr>enpassant_keys := map (rng_draw rng g) [0..<n] @ drop n (enpassant_keys K)\<rparr>,
            rng_state rng g n)"
  using assms
proof (induction n)
  case 0
  show ?case by simp
next
  case (Suc n)
  then have n: "n < length (enpassant_keys K)" by simp
  show ?case
    using Suc.IH n fill_list_update [OF n, of "rng_draw rng g"]
    by (simp add: enpassant_key_step_def rng_step)
qed

lemma castle_fold:
  assumes "n \<le> length (CastleKeys K)"
  shows "fold (castle_key_step rng) [0..<n] (K, g) =
           (K\<lparr>CastleKeys := map (rng_draw rng g) [0..<n] @ drop n (CastleKeys K)\<rparr>,
            rng_state rng g n)"
  using assms
proof (induction n)
  case 0
  show ?case by simp
next
  case (Suc n)
  then have n: "n < length (CastleKeys K)" by simp
  show ?case
    using Suc.IH n fill_list_update [OF n, of "rng_draw rng g"]
    by (simp add: castle_key_step_def rng_step)
qed

lemma piece_inner_fold:
  assumes "t < length (PieceKeys K)" "n \<le> length (PieceKeys K ! t)"
  shows "fold (piece_key_step rng t) [0..<n] (K, g) =
           (K\<lparr>PieceKeys := (PieceKeys K)
                [t := map (rng_draw rng g) [0..<n] @ drop n (PieceKeys K ! t)]\<rparr>,
            rng_state rng g n)"
  using assms
proof (induction n)
  case 0
  show ?case by simp
next
  case (Suc n)
  then have n: "n < length (PieceKeys K ! t)" by simp
  show ?case
    using Suc.IH Suc.prems(1) n fill_list_update [OF n, of "rng_draw rng g"]
    by (simp add: piece_key_step_def rng_step)
qed

lemma piece_outer_fold:
  assumes "WP + m \<le> length (PieceKeys K)"
    and "\<forall>t<length (PieceKeys K). length (PieceKeys K ! t) = 64"
  shows "\<exists>P. fold (\<lambda>t. fold (piece_key_step rng t) [0..<64]) [WP..<WP + m] (K, g) =
               (K\<lparr>PieceKeys := P\<rparr>, rng_state rng g (m * 64))
           \<and> length P = length (PieceKeys K)
           \<and> (\<forall>t<length P. P ! t =
                 (if WP \<le> t \<and> t < WP + m
                  then map (\<lambda>n. rng_draw rng g ((t - WP) * 64 + n)) [0..<64]
                  else PieceKeys K ! t))"
  using assms(1)
proof (induction m)
  case 0
  show ?case by (intro exI [of _ "PieceKeys K"]) auto
next
  case (Suc m)
  then obtain P where
    run: "fold (\<lambda>t. fold (piece_key_step rng t) [0..<64]) [WP..<WP + m] (K, g) =
            (K\<lparr>PieceKeys := P\<rparr>, rng_state rng g (m * 64))"
    and len: "length P = length (PieceKeys K)"
    and rows: "\<forall>t<length P. P ! t =
                 (if WP \<le> t \<and> t < WP + m
                  then map (\<lambda>n. rng_draw rng g ((t - WP) * 64 + n)) [0..<64]
                  else PieceKeys K ! t)"
    by auto
  let ?t = "WP + m"
  let ?g = "rng_state rng g (m * 64)"
  let ?row = "map (\<lambda>n. rng_draw rng g (m * 64 + n)) [0..<64]"
  have t: "?t < length P" using Suc.prems len by simp
  then have row: "length (P ! ?t) = 64" using rows assms(2) len by simp
  have draws: "map (rng_draw rng ?g) [0..<64] = ?row"
    by (simp add: rng_draw_add)
  have "fold (piece_key_step rng ?t) [0..<64] (K\<lparr>PieceKeys := P\<rparr>, ?g) =
          (K\<lparr>PieceKeys := P[?t := ?row]\<rparr>, rng_state rng ?g 64)"
    using piece_inner_fold [of ?t "K\<lparr>PieceKeys := P\<rparr>" 64 rng ?g] t row draws by simp
  then have step: "fold (\<lambda>t. fold (piece_key_step rng t) [0..<64]) [WP..<WP + Suc m] (K, g) =
          (K\<lparr>PieceKeys := P[?t := ?row]\<rparr>, rng_state rng g (Suc m * 64))"
    using run by (simp add: rng_state_add add.commute)
  have "\<forall>u<length (P[?t := ?row]). P[?t := ?row] ! u =
          (if WP \<le> u \<and> u < WP + Suc m
           then map (\<lambda>n. rng_draw rng g ((u - WP) * 64 + n)) [0..<64]
           else PieceKeys K ! u)"
    using rows t by (auto simp: nth_list_update)
  then show ?case using step len by (intro exI [of _ "P[?t := ?row]"]) simp
qed

lemma initHashKeys_keys:
  fixes rng :: "'g \<Rightarrow> Bitboard \<times> 'g" and g :: 'g
  assumes shape: "declared_key_shape K" and WP: "WP \<le> BK" and BK: "BK < 12"
  defines "R \<equiv> initHashKeys rng WP BK (K, g)"
  defines "p \<equiv> (Suc BK - WP) * 64"
  shows "declared_key_shape (fst R)"
    and "\<And>t n. WP \<le> t \<Longrightarrow> t \<le> BK \<Longrightarrow> n < 64 \<Longrightarrow>
           PieceKeys (fst R) ! t ! n = rng_draw rng g ((t - WP) * 64 + n)"
    and "\<And>sq. sq < 64 \<Longrightarrow> enpassant_keys (fst R) ! sq = rng_draw rng g (p + sq)"
    and "\<And>i. i < 16 \<Longrightarrow> CastleKeys (fst R) ! i = rng_draw rng g (p + 64 + i)"
    and "SideKey (fst R) = rng_draw rng g (p + 80)"
    and "snd R = rng_state rng g (p + 81)"
proof -
  let ?m = "Suc BK - WP"
  have rng: "[WP..<Suc BK] = [WP..<WP + ?m]" using WP by simp
  have "WP + ?m \<le> length (PieceKeys K)"
    and "\<forall>t<length (PieceKeys K). length (PieceKeys K ! t) = 64"
    using shape WP BK by (simp_all add: declared_key_shape_def)
  from piece_outer_fold [OF this, of rng g] obtain P where
    run: "fold (\<lambda>t. fold (piece_key_step rng t) [0..<64]) [WP..<Suc BK] (K, g) =
            (K\<lparr>PieceKeys := P\<rparr>, rng_state rng g p)"
    and len: "length P = length (PieceKeys K)"
    and rows: "\<forall>t<length P. P ! t =
                 (if WP \<le> t \<and> t < WP + ?m
                  then map (\<lambda>n. rng_draw rng g ((t - WP) * 64 + n)) [0..<64]
                  else PieceKeys K ! t)"
    unfolding rng p_def by blast
  let ?g1 = "rng_state rng g p"
  let ?K1 = "K\<lparr>PieceKeys := P\<rparr>"
  let ?E = "map (rng_draw rng ?g1) [0..<64]"
  let ?K2 = "?K1\<lparr>enpassant_keys := ?E\<rparr>"
  let ?g2 = "rng_state rng g (p + 64)"
  let ?C = "map (rng_draw rng ?g2) [0..<16]"
  let ?K3 = "?K2\<lparr>CastleKeys := ?C\<rparr>"
  let ?g3 = "rng_state rng g (p + 80)"
  have e: "fold (enpassant_key_step rng) [0..<64] (?K1, ?g1) = (?K2, ?g2)"
    using enpassant_fold [of 64 ?K1 rng ?g1] shape
    by (simp add: declared_key_shape_def rng_state_add)
  have c: "fold (castle_key_step rng) [0..<16] (?K2, ?g2) = (?K3, ?g3)"
    using castle_fold [of 16 ?K2 rng ?g2] shape
    by (simp add: declared_key_shape_def rng_state_add add.commute)
  have s: "side_key_step rng (?K3, ?g3) = (?K3\<lparr>SideKey := rng_draw rng g (p + 80)\<rparr>,
             rng_state rng g (p + 81))"
    by (simp add: side_key_step_def rng_step add.commute)
  have R: "R = (?K3\<lparr>SideKey := rng_draw rng g (p + 80)\<rparr>, rng_state rng g (p + 81))"
    unfolding R_def initHashKeys_def Let_def run e c s ..
  have P12: "length P = 12" using len shape by (simp add: declared_key_shape_def)
  show "declared_key_shape (fst R)"
    using rows P12 shape by (auto simp: R declared_key_shape_def)
  show "PieceKeys (fst R) ! t ! n = rng_draw rng g ((t - WP) * 64 + n)"
    if "WP \<le> t" "t \<le> BK" "n < 64" for t n
    using that rows P12 BK by (simp add: R)
  show "enpassant_keys (fst R) ! sq = rng_draw rng g (p + sq)" if "sq < 64" for sq
    using that by (simp add: R rng_draw_add)
  show "CastleKeys (fst R) ! i = rng_draw rng g (p + 64 + i)" if "i < 16" for i
    using that by (simp add: R rng_draw_add)
  show "SideKey (fst R) = rng_draw rng g (p + 80)" by (simp add: R)
  show "snd R = rng_state rng g (p + 81)" by (simp add: R)
qed

lemma static_zero_keys_shape: "declared_key_shape static_zero_keys"
  by (simp add: declared_key_shape_def static_zero_keys_def)

lemma counter_rng_state: "rng_state counter_rng g k = g + of_nat k"
  by (induction k) (simp_all add: rng_state_Suc counter_rng_def)

lemma counter_rng_draw: "rng_draw counter_rng g k = g + of_nat k"
  by (simp add: rng_draw_def counter_rng_state counter_rng_def)

text \<open>
  C4 (as amended). initHashKeys fills every slot of the declared tables with a draw of its
  own from the generator, in order: one key per (piece type, square) pair for the piece
  types \<open>WP..BK\<close>, one key per en-passant square (64 keys, indexed by square), one key
  per castling-rights value 0..15, and one side-to-move key.
\<close>

theorem initHashKeys_one_key_per_slot:
  fixes rng :: "'g \<Rightarrow> Bitboard \<times> 'g" and g :: 'g
  assumes "declared_key_shape K" "WP \<le> BK" "BK < 12"
  shows "declared_key_shape (fst (initHashKeys rng WP BK (K, g)))
       \<and> (\<forall>t n. WP \<le> t \<and> t \<le> BK \<and> n < 64 \<longrightarrow>
             PieceKeys (fst (initHashKeys rng WP BK (K, g))) ! t ! n =
               rng_draw rng g ((t - WP) * 64 + n))
       \<and> (\<forall>sq<64. enpassant_keys (fst (initHashKeys rng WP BK (K, g))) ! sq =
               rng_draw rng g ((Suc BK - WP) * 64 + sq))
       \<and> (\<forall>i<16. CastleKeys (fst (initHashKeys rng WP BK (K, g))) ! i =
               rng_draw rng g ((Suc BK - WP) * 64 + 64 + i))
       \<and> SideKey (fst (initHashKeys rng WP BK (K, g))) =
               rng_draw rng g ((Suc BK - WP) * 64 + 80)"
  using initHashKeys_keys [OF assms, where rng = rng and g = g] by simp

theorem initHashKeys_one_key_per_slot_witness:
  "(0::nat) \<le> 11 \<and> (11::nat) < 12
   \<and> length (enpassant_keys (fst (initHashKeys counter_rng 0 11 (static_zero_keys, 0)))) = 64
   \<and> PieceKeys (fst (initHashKeys counter_rng 0 11 (static_zero_keys, 0))) ! 11 ! 63 = 767
   \<and> enpassant_keys (fst (initHashKeys counter_rng 0 11 (static_zero_keys, 0))) ! 8 = 776
   \<and> CastleKeys (fst (initHashKeys counter_rng 0 11 (static_zero_keys, 0))) ! 15 = 847
   \<and> SideKey (fst (initHashKeys counter_rng 0 11 (static_zero_keys, 0))) = 848"
proof -
  have h: "(0::nat) \<le> 11" "(11::nat) < 12" by simp_all
  note th = initHashKeys_one_key_per_slot
    [OF static_zero_keys_shape h, where rng = counter_rng and g = 0]
  from th have "length (enpassant_keys (fst (initHashKeys counter_rng 0 11 (static_zero_keys, 0)))) = 64"
    by (simp add: declared_key_shape_def)
  moreover from th have
    "PieceKeys (fst (initHashKeys counter_rng 0 11 (static_zero_keys, 0))) ! 11 ! 63 = 767"
    by (simp add: counter_rng_draw)
  moreover from th have
    "enpassant_keys (fst (initHashKeys counter_rng 0 11 (static_zero_keys, 0))) ! 8 = 776"
    by (simp add: counter_rng_draw)
  moreover from th have
    "CastleKeys (fst (initHashKeys counter_rng 0 11 (static_zero_keys, 0))) ! 15 = 847"
    by (simp add: counter_rng_draw)
  moreover from th have
    "SideKey (fst (initHashKeys counter_rng 0 11 (static_zero_keys, 0))) = 848"
    by (simp add: counter_rng_draw)
  ultimately show ?thesis by simp
qed

text \<open>
  C4 as stated asks for eight en-passant keys, indexed by file. The table has 64 slots and
  the loop draws a key for each square: with a generator that counts, squares 0 and 8
  (the same file) hold different keys.
\<close>

theorem initHashKeys_enpassant_counterexample:
  "\<not> (length (enpassant_keys (fst (initHashKeys counter_rng 0 11 (static_zero_keys, 0)))) = 8)
   \<and> enpassant_keys (fst (initHashKeys counter_rng 0 11 (static_zero_keys, 0))) ! 0
       \<noteq> enpassant_keys (fst (initHashKeys counter_rng 0 11 (static_zero_keys, 0))) ! 8"
proof -
  have h: "(0::nat) \<le> 11" "(11::nat) < 12" by simp_all
  have "declared_key_shape (fst (initHashKeys counter_rng 0 11 (static_zero_keys, 0)))"
    by (rule initHashKeys_keys(1) [OF static_zero_keys_shape h])
  then have len: "length (enpassant_keys (fst (initHashKeys counter_rng 0 11 (static_zero_keys, 0)))) = 64"
    by (simp add: declared_key_shape_def)
  have "enpassant_keys (fst (initHashKeys counter_rng 0 11 (static_zero_keys, 0))) ! 0 = 768"
    using initHashKeys_keys(3) [OF static_zero_keys_shape h, where sq = 0 and rng = counter_rng and g = 0]
    by (simp add: counter_rng_draw)
  moreover have "enpassant_keys (fst (initHashKeys counter_rng 0 11 (static_zero_keys, 0))) ! 8 = 776"
    using initHashKeys_keys(3) [OF static_zero_keys_shape h, where sq = 8 and rng = counter_rng and g = 0]
    by (simp add: counter_rng_draw)
  ultimately show ?thesis using len by simp
qed

subsection \<open>Facts about InitNewGame\<close>

lemma clean_pv_inner:
  "pvLength (fold (\<lambda>index2 pv. pv\<lparr>pvArray := set2 (pvArray pv) index index2 nomove\<rparr>) js pv)
     = pvLength pv"
  "pvArray (fold (\<lambda>index2 pv. pv\<lparr>pvArray := set2 (pvArray pv) index index2 nomove\<rparr>) js pv) i j
     = (if i = index \<and> j \<in> set js then nomove else pvArray pv i j)"
  by (induction js arbitrary: pv) (auto simp: set2_apply)

lemma clean_pv_row_apply:
  "pvLength (clean_pv_row m nomove index pv) i = (if i = index then 0 else pvLength pv i)"
  "pvArray (clean_pv_row m nomove index pv) i j
     = (if i = index \<and> j \<le> m then nomove else pvArray pv i j)"
  by (auto simp: clean_pv_row_def clean_pv_inner simp del: upt_Suc)

lemma clean_pv_fold:
  "pvLength (fold (clean_pv_row m nomove) is pv) i = (if i \<in> set is then 0 else pvLength pv i)"
  "pvArray (fold (clean_pv_row m nomove) is pv) i j
     = (if i \<in> set is \<and> j \<le> m then nomove else pvArray pv i j)"
  by (induction "is" arbitrary: pv) (auto simp: clean_pv_row_apply)

lemma memset_int_0: "memset_int 0 = 0"
  by (simp add: memset_int_def)

lemma ClearTT_empty: "\<forall>slot \<in> set (ClearTT tt). slot = None" "length (ClearTT tt) = length tt"
  by (auto simp: ClearTT_def)

lemma InitNewGame_td:
  "pvLength (pvTable (td (InitNewGame env E))) i =
     (if i \<le> cfg_MAXDEPTH env then 0 else pvLength (pvTable (td E)) i)"
  "pvArray (pvTable (td (InitNewGame env E))) i j =
     (if i \<le> cfg_MAXDEPTH env \<and> j \<le> cfg_MAXDEPTH env then cfg_NOMOVE env
      else pvArray (pvTable (td E)) i j)"
  "counterMoves (sd (td (InitNewGame env E))) = (\<lambda>_ _. memset_int (cfg_NOMOVE env))"
  "info (td (InitNewGame env E)) =
     (info (td E))\<lparr>starttime := GetTimeMs (tv_sec env) (tv_usec env),
        stopped := 0, nodes := 0, seldepth := 0\<rparr>"
  "pos (td (InitNewGame env E)) =
     ParsePosition (parse_text env) ''position startpos''
       ((pos (td E))\<lparr>played_positions := []\<rparr>)"
  "TT (InitNewGame env E) = ClearTT (TT E)"
  "threads_data (InitNewGame env E) = []"
  by (auto simp: InitNewGame_def Let_def clean_pv_fold simp del: upt_Suc)

text \<open>
  C8. After InitNewGame every pvLength entry (indices 0..MAXDEPTH) is 0 and every pvArray
  entry (both indices 0..MAXDEPTH) is NOMOVE; every counter-move entry holds the memset
  fill pattern of NOMOVE, which is NOMOVE itself when NOMOVE is 0; the node counter, the
  selective-depth counter and the stop flag are 0; the played-position history is empty;
  and no slot of the transposition table holds an entry.
\<close>

theorem InitNewGame_clears_state:
  assumes "i \<le> cfg_MAXDEPTH env" "j \<le> cfg_MAXDEPTH env"
  shows "pvArray (pvTable (td (InitNewGame env E))) i j = cfg_NOMOVE env
       \<and> pvLength (pvTable (td (InitNewGame env E))) i = 0
       \<and> counterMoves (sd (td (InitNewGame env E))) a b = memset_int (cfg_NOMOVE env)
       \<and> (cfg_NOMOVE env = 0 \<longrightarrow> counterMoves (sd (td (InitNewGame env E))) a b = cfg_NOMOVE env)
       \<and> nodes (info (td (InitNewGame env E))) = 0
       \<and> seldepth (info (td (InitNewGame env E))) = 0
       \<and> stopped (info (td (InitNewGame env E))) = 0
       \<and> played_positions (pos (td (InitNewGame env E))) = []
       \<and> (\<forall>slot \<in> set (TT (InitNewGame env E)). slot = None)
       \<and> length (TT (InitNewGame env E)) = length (TT E)"
  using assms
  by (simp add: InitNewGame_td memset_int_0 ClearTT_empty ParsePosition_def)

theorem InitNewGame_clears_state_witness:
  "(1::nat) \<le> cfg_MAXDEPTH example_newgame_env \<and> (2::nat) \<le> cfg_MAXDEPTH example_newgame_env
   \<and> pvArray (pvTable (td (InitNewGame example_newgame_env example_engine))) 1 2 = 0
   \<and> pvLength (pvTable (td (InitNewGame example_newgame_env example_engine))) 1 = 0
   \<and> counterMoves (sd (td (InitNewGame example_newgame_env example_engine))) 3 4 = 0
   \<and> nodes (info (td (InitNewGame example_newgame_env example_engine))) = 0
   \<and> seldepth (info (td (InitNewGame example_newgame_env example_engine))) = 0
   \<and> stopped (info (td (InitNewGame example_newgame_env example_engine))) = 0
   \<and> played_positions (pos (td (InitNewGame example_newgame_env example_engine))) = []
   \<and> TT (InitNewGame example_newgame_env example_engine) = [None, None, None]"
proof -
  have h: "(1::nat) \<le> cfg_MAXDEPTH example_newgame_env" "(2::nat) \<le> cfg_MAXDEPTH example_newgame_env"
    by (simp_all add: example_newgame_env_def)
  have n: "cfg_NOMOVE example_newgame_env = 0" by (simp add: example_newgame_env_def)
  have l: "length (TT example_engine) = 3" by (simp add: example_engine_def)
  note th = InitNewGame_clears_state [OF h, of example_engine 3 4]
  from th have "\<forall>slot \<in> set (TT (InitNewGame example_newgame_env example_engine)). slot = None"
    and "length (TT (InitNewGame example_newgame_env example_engine)) = 3"
    using l by simp_all
  then have "replicate 3 None = TT (InitNewGame example_newgame_env example_engine)"
    using replicate_length_same [of "TT (InitNewGame example_newgame_env example_engine)" None]
    by simp
  then have "TT (InitNewGame example_newgame_env example_engine) = [None, None, None]"
    by (simp add: numeral_3_eq_3)
  then show ?thesis
    using h n th by (simp add: memset_int_0)
qed

text \<open>
  C10. Whatever the worker held before, InitNewGame leaves as its position the result of
  ParsePosition on "position startpos", run on the old position with its played-position
  history already cleared: the board is the parser's reading of that text and the history
  is empty, so two resets from different prior states end in the same position.
\<close>

theorem InitNewGame_position_startpos:
  "pos (td (InitNewGame env E)) =
     ParsePosition (parse_text env) ''position startpos''
       ((pos (td E))\<lparr>played_positions := []\<rparr>)
   \<and> board (pos (td (InitNewGame env E))) = parse_text env ''position startpos''
   \<and> played_positions (pos (td (InitNewGame env E))) = []
   \<and> pos (td (InitNewGame env E)) = pos (td (InitNewGame env E'))"
  by (simp add: InitNewGame_td ParsePosition_def)

subsection \<open>Facts about InitAttackTables\<close>

lemma bits_of_set: "set (bits_of b) = {i. bit b i}"
  by (auto simp: bits_of_def dest: bit_imp_le_length)

lemma bits_of_lt: "i \<in> set (bits_of b) \<Longrightarrow> i < 64"
  by (simp add: bits_of_def)

lemma bits_of_distinct: "distinct (bits_of b)"
  by (simp add: bits_of_def)

lemma CountBits_bits_of: "CountBits b = length (bits_of b)"
  by (simp add: CountBits_def bits_of_def)

lemma bit_square: "bit (2 ^ square :: Bitboard) j \<longleftrightarrow> j = square \<and> square < 64"
  by (auto simp: bit_exp_iff possible_bit_word)

lemma bits_of_pop_bit: "bits_of (pop_bit b p) = filter (\<lambda>i. i \<noteq> p) (bits_of b)"
proof -
  have "bit (pop_bit b p) i \<longleftrightarrow> bit b i \<and> i \<noteq> p" if "i < 64" for i
    using that by (auto simp: pop_bit_def bit_and_iff bit_not_iff bit_square possible_bit_word)
  then have "filter (bit (pop_bit b p)) [0..<64] = filter (\<lambda>i. bit b i \<and> i \<noteq> p) [0..<64]"
    by (intro filter_cong) simp_all
  then show ?thesis by (simp add: bits_of_def conj_commute)
qed

lemma bits_of_pop_lsb:
  assumes "bits_of b = p # ps"
  shows "GetLsbIndex b = p" "bits_of (pop_bit b p) = ps"
proof -
  show "GetLsbIndex b = p"
    using assms by (simp add: GetLsbIndex_def bits_of_def)
  have "p \<notin> set ps" using bits_of_distinct [of b] assms by simp
  then have "filter (\<lambda>i. i \<noteq> p) ps = ps" by (intro filter_True) auto
  then show "bits_of (pop_bit b p) = ps"
    using assms by (simp add: bits_of_pop_bit)
qed

lemma SetOccupancy_fold:
  assumes "n \<le> length (bits_of m)"
  shows "bits_of (fst (fold (SetOccupancy_step index) [0..<n] (m, 0))) = drop n (bits_of m)
       \<and> (\<forall>j. bit (snd (fold (SetOccupancy_step index) [0..<n] (m, 0))) j \<longleftrightarrow>
               (\<exists>k<n. bits_of m ! k = j \<and> bit index k))"
  using assms
proof (induction n)
  case 0
  show ?case by simp
next
  case (Suc n)
  let ?s = "fold (SetOccupancy_step index) [0..<n] (m, 0)"
  let ?ps = "bits_of m"
  have n: "n < length ?ps" using Suc.prems by simp
  have IH1: "bits_of (fst ?s) = ?ps ! n # drop (Suc n) ?ps"
    using Suc.IH n by (simp add: Cons_nth_drop_Suc)
  have IH2: "\<And>j. bit (snd ?s) j \<longleftrightarrow> (\<exists>k<n. ?ps ! k = j \<and> bit index k)"
    using Suc.IH n by simp
  have lt: "?ps ! n < 64" using n bits_of_lt nth_mem by blast
  have step: "fold (SetOccupancy_step index) [0..<Suc n] (m, 0) = SetOccupancy_step index n ?s"
    by simp
  have f: "bits_of (fst (SetOccupancy_step index n ?s)) = drop (Suc n) ?ps"
    using bits_of_pop_lsb [OF IH1] by (simp add: SetOccupancy_step_def Let_def)
  have g: "bit (snd (SetOccupancy_step index n ?s)) j \<longleftrightarrow>
             (\<exists>k<Suc n. ?ps ! k = j \<and> bit index k)" for j
    using bits_of_pop_lsb(1) [OF IH1] IH2 lt
    by (auto simp: SetOccupancy_step_def Let_def bit_or_iff bit_square less_Suc_eq)
  show ?case unfolding step using f g by blast
qed

lemma bit_SetOccupancy:
  "bit (SetOccupancy index (CountBits m) m) j \<longleftrightarrow>
     (\<exists>k<length (bits_of m). bits_of m ! k = j \<and> bit index k)"
  using SetOccupancy_fold [of "length (bits_of m)" m index]
  by (simp add: SetOccupancy_def CountBits_bits_of)

lemma gather_lt: "gather occ ps < 2 ^ length ps"
  by (induction ps) auto

lemma bit_gather: "bit (gather occ ps) k \<longleftrightarrow> k < length ps \<and> bit occ (ps ! k)"
proof (induction ps arbitrary: k)
  case Nil
  show ?case by simp
next
  case (Cons p ps)
  show ?case
  proof (cases k)
    case 0
    then show ?thesis by (simp add: bit_0)
  next
    case (Suc k')
    have "((if bit occ p then 1 else 0) + 2 * gather occ ps) div 2 = gather occ ps"
      by simp
    then show ?thesis using Suc Cons.IH [of k'] by (simp add: bit_Suc)
  qed
qed

text \<open>Every subset of the mask is produced by SetOccupancy at some index below 2^popcount.\<close>

lemma SetOccupancy_enumerates:
  assumes "occ AND NOT m = 0"
  shows "gather occ (bits_of m) < 2 ^ CountBits m"
    and "SetOccupancy (gather occ (bits_of m)) (CountBits m) m = occ"
proof -
  show "gather occ (bits_of m) < 2 ^ CountBits m"
    by (simp add: gather_lt CountBits_bits_of)
  have sub: "bit m j" if "bit occ j" for j
  proof (rule ccontr)
    assume "\<not> bit m j"
    then have "bit (occ AND NOT m) j"
      using that bit_imp_le_length [of occ j]
      by (simp add: bit_and_iff bit_not_iff possible_bit_word)
    then show False using assms by simp
  qed
  show "SetOccupancy (gather occ (bits_of m)) (CountBits m) m = occ"
  proof (rule bit_eqI)
    fix j
    have "bit (SetOccupancy (gather occ (bits_of m)) (CountBits m) m) j \<longleftrightarrow>
            (\<exists>k<length (bits_of m). bits_of m ! k = j \<and> bit occ (bits_of m ! k))"
      by (auto simp: bit_SetOccupancy bit_gather)
    also have "\<dots> \<longleftrightarrow> j \<in> set (bits_of m) \<and> bit occ j"
      by (auto simp: in_set_conv_nth)
    also have "\<dots> \<longleftrightarrow> bit occ j"
      using sub by (auto simp: bits_of_set)
    finally show "bit (SetOccupancy (gather occ (bits_of m)) (CountBits m) m) j = bit occ j" .
  qed
qed

lemma SetOccupancy_subset: "SetOccupancy index (CountBits m) m AND NOT m = 0"
proof (rule bit_eqI)
  fix j
  have "bit (SetOccupancy index (CountBits m) m) j \<Longrightarrow> bit m j"
    using bits_of_set [of m] by (auto simp: bit_SetOccupancy)
  then show "bit (SetOccupancy index (CountBits m) m AND NOT m) j = bit (0 :: Bitboard) j"
    by (auto simp: bit_and_iff bit_not_iff)
qed

lemma fold_set2_keeps:
  assumes "\<forall>j\<in>set xs. idx j = k \<longrightarrow> val j = v" and "tbl sq k = v"
  shows "fold (\<lambda>i t. set2 t sq (idx i) (val i)) xs tbl sq k = v"
  using assms by (induction xs arbitrary: tbl) (simp_all add: set2_apply)

lemma fold_set2_other_row:
  "r \<noteq> sq \<Longrightarrow> fold (\<lambda>i t. set2 t sq (idx i) (val i)) xs tbl r = tbl r"
  by (induction xs arbitrary: tbl) (simp_all add: set2_def)

lemma fold_set2_entry:
  assumes valid: "\<forall>i\<in>set xs. \<forall>j\<in>set xs. idx i = idx j \<longrightarrow> val i = val j"
    and i: "i \<in> set xs"
  shows "fold (\<lambda>i t. set2 t sq (idx i) (val i)) xs tbl sq (idx i) = val i"
proof -
  from i obtain ys zs where xs: "xs = ys @ i # zs" by (auto dest: split_list)
  let ?f = "\<lambda>i t. set2 t sq (idx i) (val i)"
  have later: "\<forall>j\<in>set zs. idx j = idx i \<longrightarrow> val j = val i"
    using valid xs by auto
  have "fold ?f xs tbl = fold ?f zs (set2 (fold ?f ys tbl) sq (idx i) (val i))"
    by (simp add: xs)
  moreover have "set2 (fold ?f ys tbl) sq (idx i) (val i) sq (idx i) = val i"
    by (simp add: set2_apply)
  ultimately show ?thesis
    using fold_set2_keeps [OF later] by simp
qed

lemma bishop_fold:
  "fold (bishop_body env sq n msk) xs T =
     T\<lparr>bishop_attacks :=
         fold (\<lambda>i t. set2 t sq
                 (magic_index (bishop_magic_numbers env sq) (bishop_relevant_bits env)
                    (SetOccupancy i n msk))
                 (BishopAttacksOnTheFly env sq (SetOccupancy i n msk)))
           xs (bishop_attacks T)\<rparr>"
  by (induction xs arbitrary: T) (simp_all add: bishop_body_def Let_def)

lemma rook_fold:
  "fold (rook_body env sq n msk) xs T =
     T\<lparr>rook_attacks :=
         fold (\<lambda>i t. set2 t sq
                 (magic_index (rook_magic_numbers env sq) (rook_relevant_bits env)
                    (SetOccupancy i n msk))
                 (RookAttacksOnTheFly env sq (SetOccupancy i n msk)))
           xs (rook_attacks T)\<rparr>"
  by (induction xs arbitrary: T) (simp_all add: rook_body_def Let_def)

lemma square_body_bishop:
  "bishop_attacks (square_body env sq T) =
     fold (\<lambda>i t. set2 t sq
             (magic_index (bishop_magic_numbers env sq) (bishop_relevant_bits env)
                (SetOccupancy i (CountBits (MaskBishopAttacks env sq)) (MaskBishopAttacks env sq)))
             (BishopAttacksOnTheFly env sq
                (SetOccupancy i (CountBits (MaskBishopAttacks env sq)) (MaskBishopAttacks env sq))))
       [0..<2 ^ CountBits (MaskBishopAttacks env sq)] (bishop_attacks T)"
  by (simp add: square_body_def Let_def bishop_fold rook_fold)

lemma square_body_rook:
  "rook_attacks (square_body env sq T) =
     fold (\<lambda>i t. set2 t sq
             (magic_index (rook_magic_numbers env sq) (rook_relevant_bits env)
                (SetOccupancy i (CountBits (MaskRookAttacks env sq)) (MaskRookAttacks env sq)))
             (RookAttacksOnTheFly env sq
                (SetOccupancy i (CountBits (MaskRookAttacks env sq)) (MaskRookAttacks env sq))))
       [0..<2 ^ CountBits (MaskRookAttacks env sq)] (rook_attacks T)"
  by (simp add: square_body_def Let_def bishop_fold rook_fold)

lemma square_body_masks:
  "bishop_masks (square_body env sq T) = (bishop_masks T)(sq := MaskBishopAttacks env sq)"
  "rook_masks (square_body env sq T) = (rook_masks T)(sq := MaskRookAttacks env sq)"
  by (simp_all add: square_body_def Let_def bishop_fold rook_fold)

lemma square_body_other_row:
  assumes "r \<noteq> sq"
  shows "bishop_attacks (square_body env sq T) r = bishop_attacks T r"
    and "rook_attacks (square_body env sq T) r = rook_attacks T r"
  using assms by (simp_all add: square_body_bishop square_body_rook fold_set2_other_row)

lemma squares_fold_other_row:
  assumes "r \<notin> set sqs"
  shows "bishop_attacks (fold (square_body env) sqs T) r = bishop_attacks T r"
    and "rook_attacks (fold (square_body env) sqs T) r = rook_attacks T r"
  using assms by (induction sqs arbitrary: T) (auto simp: square_body_other_row)

lemma InitAttackTables_row:
  assumes "sq < 64"
  shows "\<exists>T'. bishop_attacks (InitAttackTables env T) sq = bishop_attacks (square_body env sq T') sq
             \<and> rook_attacks (InitAttackTables env T) sq = rook_attacks (square_body env sq T') sq"
proof -
  have split: "[0..<64] = [0..<sq] @ sq # [Suc sq..<64]"
    using assms by (metis less_imp_add_positive upt_add_eq_append upt_conv_Cons zero_le)
  have notin: "sq \<notin> set [Suc sq..<64]" by simp
  let ?T' = "fold (square_body env) [0..<sq] T"
  have "InitAttackTables env T = fold (square_body env) [Suc sq..<64] (square_body env sq ?T')"
    unfolding InitAttackTables_def by (subst split) simp
  then show ?thesis
    using squares_fold_other_row [OF notin] by auto
qed

lemma magic_index_lt:
  assumes "0 < b" "b \<le> 64"
  shows "magic_index magic b occ < 2 ^ b"
proof -
  have "unat (occ * magic) < 2 ^ LENGTH(64)" by (rule unsigned_less)
  then have "unat (occ * magic) < 2 ^ 64" by simp
  also have "(2::nat) ^ 64 = 2 ^ (64 - b) * 2 ^ b"
    using assms by (simp flip: power_add)
  finally have "unat (occ * magic) div 2 ^ (64 - b) < 2 ^ b"
    by (simp add: less_mult_imp_div_less mult.commute)
  moreover have "unat (drop_bit (64 - b) (occ * magic)) = drop_bit (64 - b) (unat (occ * magic))"
    by (rule unat_drop_bit_eq)
  moreover have "drop_bit (64 - b) (unat (occ * magic)) = unat (occ * magic) div 2 ^ (64 - b)"
    by (rule drop_bit_eq_div)
  ultimately show ?thesis
    unfolding magic_index_def by presburger
qed

lemma squares_fold_masks:
  "bishop_masks (fold (square_body env) sqs T) r =
     (if r \<in> set sqs then MaskBishopAttacks env r else bishop_masks T r)"
  "rook_masks (fold (square_body env) sqs T) r =
     (if r \<in> set sqs then MaskRookAttacks env r else rook_masks T r)"
  by (induction sqs arbitrary: T) (auto simp: square_body_masks)

lemma InitAttackTables_masks:
  assumes "sq < 64"
  shows "bishop_masks (InitAttackTables env T) sq = MaskBishopAttacks env sq"
    and "rook_masks (InitAttackTables env T) sq = MaskRookAttacks env sq"
  using assms by (simp_all add: InitAttackTables_def squares_fold_masks)

lemma slider_fold_lookup:
  assumes valid: "magic_valid m magic b attacks" and sub: "occ AND NOT m = 0"
  shows "fold (\<lambda>i t. set2 t sq (magic_index magic b (SetOccupancy i (CountBits m) m))
                       (attacks (SetOccupancy i (CountBits m) m)))
           [0..<2 ^ CountBits m] tbl sq (magic_index magic b occ) = attacks occ"
proof -
  let ?occ = "\<lambda>i. SetOccupancy i (CountBits m) m"
  let ?i = "gather occ (bits_of m)"
  have nodestroy: "\<forall>i\<in>set [0..<2 ^ CountBits m]. \<forall>j\<in>set [0..<2 ^ CountBits m].
          magic_index magic b (?occ i) = magic_index magic b (?occ j)
            \<longrightarrow> attacks (?occ i) = attacks (?occ j)"
    using valid SetOccupancy_subset unfolding magic_valid_def by blast
  have i: "?i \<in> set [0..<2 ^ CountBits m]"
    using SetOccupancy_enumerates(1) [OF sub] by simp
  have "?occ ?i = occ" by (rule SetOccupancy_enumerates(2) [OF sub])
  then show ?thesis
    using fold_set2_entry [where idx = "\<lambda>i. magic_index magic b (?occ i)"
        and val = "\<lambda>i. attacks (?occ i)", OF nodestroy i, of sq tbl]
    by simp
qed

text \<open>
  C1. Let the constants of a square be valid: two occupancies inside the square's mask
  that hash to the same index have the same ray-cast attack set (in particular when no two
  of them share an index), the shift leaves at most 9 (bishop) or 12 (rook) index bits, and
  the mask has fewer than 31 bits so that \<^verbatim>\<open>1 << relevant_bits_count\<close> is defined. Then
  after InitAttackTables the stored masks are the square's masks and, for every occupancy
  inside the mask, the entry at the magic index lies inside the declared row and equals
  BishopAttacksOnTheFly, respectively RookAttacksOnTheFly, of that square and occupancy.
\<close>

theorem InitAttackTables_slider_lookup:
  assumes "square < 64"
    and "0 < bishop_relevant_bits env" "bishop_relevant_bits env \<le> 9"
    and "0 < rook_relevant_bits env" "rook_relevant_bits env \<le> 12"
    and "CountBits (MaskBishopAttacks env square) < 31"
    and "CountBits (MaskRookAttacks env square) < 31"
    and "magic_valid (MaskBishopAttacks env square) (bishop_magic_numbers env square)
           (bishop_relevant_bits env) (BishopAttacksOnTheFly env square)"
    and "magic_valid (MaskRookAttacks env square) (rook_magic_numbers env square)
           (rook_relevant_bits env) (RookAttacksOnTheFly env square)"
  shows "bishop_masks (InitAttackTables env T) square = MaskBishopAttacks env square
       \<and> rook_masks (InitAttackTables env T) square = MaskRookAttacks env square
       \<and> (\<forall>occ. occ AND NOT (bishop_masks (InitAttackTables env T) square) = 0 \<longrightarrow>
             magic_index (bishop_magic_numbers env square) (bishop_relevant_bits env) occ < 512
           \<and> bishop_attacks (InitAttackTables env T) square
               (magic_index (bishop_magic_numbers env square) (bishop_relevant_bits env) occ)
               = BishopAttacksOnTheFly env square occ)
       \<and> (\<forall>occ. occ AND NOT (rook_masks (InitAttackTables env T) square) = 0 \<longrightarrow>
             magic_index (rook_magic_numbers env square) (rook_relevant_bits env) occ < 4096
           \<and> rook_attacks (InitAttackTables env T) square
               (magic_index (rook_magic_numbers env square) (rook_relevant_bits env) occ)
               = RookAttacksOnTheFly env square occ)"
proof -
  obtain T' where
    b: "bishop_attacks (InitAttackTables env T) square
          = bishop_attacks (square_body env square T') square"
    and r: "rook_attacks (InitAttackTables env T) square
          = rook_attacks (square_body env square T') square"
    using InitAttackTables_row [OF assms(1)] by blast
  have bm: "bishop_masks (InitAttackTables env T) square = MaskBishopAttacks env square"
    and rm: "rook_masks (InitAttackTables env T) square = MaskRookAttacks env square"
    using assms(1) by (simp_all add: InitAttackTables_masks)
  have b1: "magic_index (bishop_magic_numbers env square) (bishop_relevant_bits env) occ
          < 2 ^ bishop_relevant_bits env" for occ
    using assms(2,3) by (intro magic_index_lt) simp_all
  have b2: "(2::nat) ^ bishop_relevant_bits env \<le> 2 ^ 9"
    using assms(3) by (intro power_increasing) simp_all
  have bi: "magic_index (bishop_magic_numbers env square)
          (bishop_relevant_bits env) occ < 512" for occ
    using order_less_le_trans [OF b1 b2, of occ] by simp
  have r1: "magic_index (rook_magic_numbers env square) (rook_relevant_bits env) occ
          < 2 ^ rook_relevant_bits env" for occ
    using assms(4,5) by (intro magic_index_lt) simp_all
  have r2: "(2::nat) ^ rook_relevant_bits env \<le> 2 ^ 12"
    using assms(5) by (intro power_increasing) simp_all
  have ri: "magic_index (rook_magic_numbers env square)
          (rook_relevant_bits env) occ < 4096" for occ
    using order_less_le_trans [OF r1 r2, of occ] by simp
  have be: "bishop_attacks (InitAttackTables env T) square
              (magic_index (bishop_magic_numbers env square) (bishop_relevant_bits env) occ)
              = BishopAttacksOnTheFly env square occ"
    if "occ AND NOT (MaskBishopAttacks env square) = 0" for occ
    unfolding b square_body_bishop by (rule slider_fold_lookup [OF assms(8) that])
  have re: "rook_attacks (InitAttackTables env T) square
              (magic_index (rook_magic_numbers env square) (rook_relevant_bits env) occ)
              = RookAttacksOnTheFly env square occ"
    if "occ AND NOT (MaskRookAttacks env square) = 0" for occ
    unfolding r square_body_rook by (rule slider_fold_lookup [OF assms(9) that])
  show ?thesis
    using bm rm bi ri be re by simp
qed

subsection \<open>Facts about initializeLookupTables\<close>

lemma between_body_apply:
  "between_body env sq1 sq2 B a b =
     (if a = sq1 \<and> b = sq2 then between_value env sq1 sq2 (B a b) else B a b)"
  by (simp add: between_body_def between_value_def Let_def set2_apply)

lemma between_value_idem:
  "between_value env sq1 sq2 (between_value env sq1 sq2 old) = between_value env sq1 sq2 old"
  by (simp add: between_value_def Let_def)

lemma between_inner_fold:
  "fold (between_body env sq1) sq2s B a b =
     (if a = sq1 \<and> b \<in> set sq2s then between_value env sq1 b (B a b) else B a b)"
  by (induction sq2s arbitrary: B) (auto simp: between_body_apply between_value_idem)

lemma between_outer_fold:
  "fold (\<lambda>sq1. fold (between_body env sq1) sq2s) sq1s B a b =
     (if a \<in> set sq1s \<and> b \<in> set sq2s then between_value env a b (B a b) else B a b)"
  by (induction sq1s arbitrary: B) (auto simp: between_inner_fold between_value_idem)

lemma initializeLookupTables_entry:
  "initializeLookupTables env B sq1 sq2 =
     (if sq1 < 64 \<and> sq2 < 64 then between_value env sq1 sq2 (B sq1 sq2) else B sq1 sq2)"
  by (simp add: initializeLookupTables_def between_outer_fold)

lemma initializeLookupTables_diagonal:
  "sq < 64 \<Longrightarrow> initializeLookupTables env B sq sq = GetRookAttacks env sq (push_bit sq 1)"
  by (simp add: initializeLookupTables_entry between_value_def)

lemma chess_rook_corner:
  "chess_rook_mask 0 = 0x000101010101017E"
  "chess_rook_on_the_fly 0 0 = 0x01010101010101FE"
  by (simp_all add: chess_rook_mask_def squares_bb_def chess_rook_on_the_fly_def
        ray_squares_def on_board_def)

text \<open>
  C3 at the pair (0, 0). A square shares its file with itself, so the first branch stores
  the rook lookup of square 0 intersected with itself: the 14 squares of its rank and file,
  not the empty set of squares strictly between a square and itself.
\<close>

theorem initializeLookupTables_same_square:
  "initializeLookupTables chess_lookup_env (\<lambda>_ _. 0) 0 0 = 0x01010101010101FE
   \<and> initializeLookupTables chess_lookup_env (\<lambda>_ _. 0) 0 0 \<noteq> 0"
proof -
  have "initializeLookupTables chess_lookup_env (\<lambda>_ _. 0) 0 0
          = GetRookAttacks chess_lookup_env 0 (push_bit 0 1)"
    by (rule initializeLookupTables_diagonal) simp
  also have "\<dots> = chess_rook_on_the_fly 0 0"
    by (simp add: chess_lookup_env_def chess_rook_corner)
  finally show ?thesis by (simp add: chess_rook_corner)
qed

subsection \<open>A valid pair of magic numbers for square b2\<close>

lemma squares_upt:
  "[0..<64] = concat (map (\<lambda>r. map (\<lambda>f. 8 * r + f) [0, 1, 2, 3, 4, 5, 6, 7]) [0, 1, 2, 3, 4, 5, 6, 7])"
  by code_simp

lemma subset_bit:
  assumes sub: "occ AND NOT m = 0" and occ: "bit occ n"
  shows "bit (m :: Bitboard) n"
proof (rule ccontr)
  assume "\<not> bit m n"
  then have "bit (occ AND NOT m) n"
    using occ bit_imp_le_length [of occ n]
    by (simp add: bit_and_iff bit_not_iff possible_bit_word)
  then show False by (simp add: sub)
qed

lemma shifted_subsets_disjoint:
  fixes occ m :: Bitboard
  assumes sub: "occ AND NOT m = 0" and disj: "push_bit c m AND push_bit c' m = 0"
  shows "\<not> bit (push_bit c occ) n \<or> \<not> bit (push_bit c' occ) n"
proof (rule ccontr)
  assume "\<not> (\<not> bit (push_bit c occ) n \<or> \<not> bit (push_bit c' occ) n)"
  then have "bit (push_bit c occ) n" "bit (push_bit c' occ) n" by simp_all
  then have "bit (push_bit c m) n" "bit (push_bit c' m) n"
    using subset_bit [OF sub] by (auto simp: bit_push_bit_iff)
  then have "bit (push_bit c m AND push_bit c' m) n" by (simp add: bit_and_iff)
  then show False using disj by simp
qed

text \<open>
  Multiplying by a sum of distinct powers of two whose shifted copies of the occupancy do
  not overlap produces no carries: the product is the union of the shifted copies.
\<close>

lemma bit_sparse_mult:
  fixes occ :: Bitboard
  assumes "distinct cs"
    and "\<forall>c\<in>set cs. \<forall>c'\<in>set cs. c \<noteq> c' \<longrightarrow>
           (\<forall>n. \<not> bit (push_bit c occ) n \<or> \<not> bit (push_bit c' occ) n)"
  shows "bit (occ * sum_list (map (\<lambda>c. 2 ^ c) cs)) n \<longleftrightarrow> (\<exists>c\<in>set cs. bit (push_bit c occ) n)"
  using assms
proof (induction cs arbitrary: n)
  case Nil
  show ?case by simp
next
  case (Cons c cs)
  let ?rest = "occ * sum_list (map (\<lambda>c. 2 ^ c) cs)"
  have d: "distinct cs" and notin: "c \<notin> set cs" using Cons.prems(1) by simp_all
  have dj: "\<forall>a\<in>set cs. \<forall>b\<in>set cs. a \<noteq> b \<longrightarrow>
              (\<forall>n. \<not> bit (push_bit a occ) n \<or> \<not> bit (push_bit b occ) n)"
    using Cons.prems(2) by simp
  have IH: "bit ?rest k \<longleftrightarrow> (\<exists>c'\<in>set cs. bit (push_bit c' occ) k)" for k
    by (rule Cons.IH [OF d dj])
  have apart: "\<not> bit (push_bit c occ) k \<or> \<not> bit ?rest k" for k
  proof (rule ccontr)
    assume "\<not> (\<not> bit (push_bit c occ) k \<or> \<not> bit ?rest k)"
    then have here: "bit (push_bit c occ) k" and "bit ?rest k" by simp_all
    then obtain c' where c': "c' \<in> set cs" "bit (push_bit c' occ) k"
      using IH [of k] by blast
    have "c \<noteq> c'" using c'(1) notin by blast
    moreover have "c \<in> set (c # cs)" "c' \<in> set (c # cs)" using c'(1) by simp_all
    ultimately have "\<not> bit (push_bit c occ) k \<or> \<not> bit (push_bit c' occ) k"
      using Cons.prems(2) by blast
    then show False using here c'(2) by simp
  qed
  have "push_bit c occ + ?rest = push_bit c occ OR ?rest"
    by (rule disjunctive_add) (rule apart)
  moreover have "occ * sum_list (map (\<lambda>c. 2 ^ c) (c # cs)) = push_bit c occ + ?rest"
    by (simp add: push_bit_eq_mult distrib_left)
  ultimately have "bit (occ * sum_list (map (\<lambda>c. 2 ^ c) (c # cs))) n
      \<longleftrightarrow> bit (push_bit c occ) n \<or> bit ?rest n"
    by (simp only: bit_or_iff)
  then show ?case using IH [of n] by simp
qed

lemma magic_index_eq_iff:
  "magic_index magic b o1 = magic_index magic b o2 \<longleftrightarrow>
     drop_bit (64 - b) (o1 * magic) = drop_bit (64 - b) (o2 * magic)"
  by (simp add: magic_index_def word_unat_eq_iff)

lemma sparse_magic_selects:
  fixes m :: Bitboard
  assumes ok: "sparse_magic_ok m cs b" and p: "bit m p"
  shows "\<exists>k. \<forall>occ. occ AND NOT m = 0 \<longrightarrow>
           bit occ p = bit (drop_bit (64 - b) (occ * sum_list (map (\<lambda>c. 2 ^ c) cs))) k"
proof -
  have p_in: "p \<in> set (bits_of m)" using p by (simp add: bits_of_set)
  from ok p_in obtain c where c: "c \<in> set cs" "64 - b \<le> p + c" "p + c < 64"
    and others: "\<forall>c'\<in>set cs. c' \<noteq> c \<longrightarrow> c' \<le> p + c \<longrightarrow> \<not> bit m (p + c - c')"
    unfolding sparse_magic_ok_def by blast
  have dist: "distinct cs" using ok by (simp add: sparse_magic_ok_def)
  have sel: "bit occ p
      = bit (drop_bit (64 - b) (occ * sum_list (map (\<lambda>c. 2 ^ c) cs))) (p + c - (64 - b))"
    if sub: "occ AND NOT m = 0" for occ
  proof -
    have disj: "\<forall>c\<in>set cs. \<forall>c'\<in>set cs. c \<noteq> c' \<longrightarrow>
                  (\<forall>n. \<not> bit (push_bit c occ) n \<or> \<not> bit (push_bit c' occ) n)"
      using ok shifted_subsets_disjoint [OF sub] unfolding sparse_magic_ok_def by blast
    have "bit (occ * sum_list (map (\<lambda>c. 2 ^ c) cs)) (p + c)
            \<longleftrightarrow> (\<exists>c'\<in>set cs. bit (push_bit c' occ) (p + c))"
      by (rule bit_sparse_mult [OF dist disj])
    also have "\<dots> \<longleftrightarrow> bit occ p"
    proof
      assume "\<exists>c'\<in>set cs. bit (push_bit c' occ) (p + c)"
      then obtain c' where c': "c' \<in> set cs" "c' \<le> p + c" "bit occ (p + c - c')"
        by (auto simp: bit_push_bit_iff)
      have "c' = c"
      proof (rule ccontr)
        assume "c' \<noteq> c"
        then have "\<not> bit m (p + c - c')" using others c' by blast
        then show False using subset_bit [OF sub c'(3)] by simp
      qed
      then show "bit occ p" using c'(3) by simp
    next
      assume "bit occ p"
      then have "bit (push_bit c occ) (p + c)"
        using c(3) by (simp add: bit_push_bit_iff possible_bit_word)
      then show "\<exists>c'\<in>set cs. bit (push_bit c' occ) (p + c)" using c(1) by blast
    qed
    finally show ?thesis
      using c(2) by (simp add: bit_drop_bit_eq)
  qed
  then show ?thesis by blast
qed

text \<open>
  A sparse magic number that passes the check sends distinct occupancies of the mask to
  distinct indices, so it is valid for any attack function.
\<close>

lemma sparse_magic_valid:
  assumes ok: "sparse_magic_ok m cs b"
  shows "magic_valid m (sum_list (map (\<lambda>c. 2 ^ c) cs)) b attacks"
  unfolding magic_valid_def
proof (intro allI impI)
  fix o1 o2 :: Bitboard
  let ?M = "sum_list (map (\<lambda>c. 2 ^ c) cs) :: Bitboard"
  assume h: "o1 AND NOT m = 0 \<and> o2 AND NOT m = 0
               \<and> magic_index ?M b o1 = magic_index ?M b o2"
  then have s1: "o1 AND NOT m = 0" and s2: "o2 AND NOT m = 0"
    and eq: "drop_bit (64 - b) (o1 * ?M) = drop_bit (64 - b) (o2 * ?M)"
    by (simp_all add: magic_index_eq_iff)
  have "o1 = o2"
  proof (rule bit_eqI)
    fix n
    show "bit o1 n = bit o2 n"
    proof (cases "bit m n")
      case True
      from sparse_magic_selects [OF ok True] obtain k where
        "\<forall>occ. occ AND NOT m = 0 \<longrightarrow> bit occ n = bit (drop_bit (64 - b) (occ * ?M)) k"
        by blast
      then have "bit o1 n = bit (drop_bit (64 - b) (o1 * ?M)) k"
        and "bit o2 n = bit (drop_bit (64 - b) (o2 * ?M)) k"
        using s1 s2 by blast+
      then show ?thesis by (simp add: eq)
    next
      case False
      then show ?thesis using subset_bit [OF s1] subset_bit [OF s2] by blast
    qed
  qed
  then show "attacks o1 = attacks o2" by simp
qed

lemma chess_masks_b2:
  "chess_bishop_mask 9 = 0x0040201008040000" "chess_rook_mask 9 = 0x2020202027C00"
  by (simp_all add: chess_bishop_mask_def chess_rook_mask_def squares_bb_def ray_squares_def
        on_board_def)

lemma chess_bits_b2:
  "bits_of 0x0040201008040000 = [18, 27, 36, 45, 54]"
  "bits_of 0x2020202027C00 = [10, 11, 12, 13, 14, 17, 25, 33, 41, 49]"
  by (simp_all add: bits_of_def squares_upt)

lemma example_magics_valid:
  "magic_valid 0x0040201008040000 0x2020202020 9 attacks"
  "magic_valid 0x2020202027C00 0x200010000800 12 attacks"
proof -
  have "sparse_magic_ok 0x0040201008040000 [5, 13, 21, 29, 37] 9"
    by (simp add: sparse_magic_ok_def chess_bits_b2)
  from sparse_magic_valid [OF this, of attacks]
  show "magic_valid 0x0040201008040000 0x2020202020 9 attacks" by simp
  have "sparse_magic_ok 0x2020202027C00 [11, 28, 45] 12"
    by (simp add: sparse_magic_ok_def chess_bits_b2)
  from sparse_magic_valid [OF this, of attacks]
  show "magic_valid 0x2020202027C00 0x200010000800 12 attacks" by simp
qed

lemma chess_attacks_b2:
  "chess_bishop_on_the_fly 9 0x8000000 = 0x8050005"
  "chess_rook_on_the_fly 9 0x200001000 = 0x202021D02"
  by (simp_all add: chess_bishop_on_the_fly_def chess_rook_on_the_fly_def ray_squares_def
        on_board_def)

lemma example_magic_index_b2:
  "magic_index 0x2020202020 9 0x8000000 = 2"
  "magic_index 0x200010000800 12 0x200001000 = 544"
  by (simp_all add: magic_index_def)

theorem InitAttackTables_slider_lookup_witness:
  "(9::nat) < 64
   \<and> 0 < bishop_relevant_bits example_attack_env \<and> bishop_relevant_bits example_attack_env \<le> 9
   \<and> 0 < rook_relevant_bits example_attack_env \<and> rook_relevant_bits example_attack_env \<le> 12
   \<and> CountBits (MaskBishopAttacks example_attack_env 9) < 31
   \<and> CountBits (MaskRookAttacks example_attack_env 9) < 31
   \<and> bishop_attacks (InitAttackTables example_attack_env static_zero_attack_tables) 9 2
        = 0x8050005
   \<and> rook_attacks (InitAttackTables example_attack_env static_zero_attack_tables) 9 544
        = 0x202021D02"
proof -
  have sq: "(9::nat) < 64" by simp
  have bits: "0 < bishop_relevant_bits example_attack_env"
    "bishop_relevant_bits example_attack_env \<le> 9"
    "0 < rook_relevant_bits example_attack_env"
    "rook_relevant_bits example_attack_env \<le> 12"
    by (simp_all add: example_attack_env_def)
  have cnt: "CountBits (MaskBishopAttacks example_attack_env 9) < 31"
    "CountBits (MaskRookAttacks example_attack_env 9) < 31"
    by (simp_all add: example_attack_env_def chess_masks_b2 CountBits_bits_of chess_bits_b2)
  have valid: "magic_valid (MaskBishopAttacks example_attack_env 9)
        (bishop_magic_numbers example_attack_env 9) (bishop_relevant_bits example_attack_env)
        (BishopAttacksOnTheFly example_attack_env 9)"
    "magic_valid (MaskRookAttacks example_attack_env 9)
        (rook_magic_numbers example_attack_env 9) (rook_relevant_bits example_attack_env)
        (RookAttacksOnTheFly example_attack_env 9)"
    by (simp_all add: example_attack_env_def chess_masks_b2 example_magics_valid)
  note th = InitAttackTables_slider_lookup
    [OF sq bits cnt valid, of static_zero_attack_tables]
  have bm: "bishop_masks (InitAttackTables example_attack_env static_zero_attack_tables) 9
              = 0x0040201008040000"
    and rm: "rook_masks (InitAttackTables example_attack_env static_zero_attack_tables) 9
              = 0x2020202027C00"
    using th by (simp_all add: example_attack_env_def chess_masks_b2)
  have "(0x8000000 :: Bitboard)
          AND NOT (bishop_masks (InitAttackTables example_attack_env static_zero_attack_tables) 9) = 0"
    by (simp add: bm)
  with th have "bishop_attacks (InitAttackTables example_attack_env static_zero_attack_tables) 9
      (magic_index (bishop_magic_numbers example_attack_env 9)
         (bishop_relevant_bits example_attack_env) 0x8000000)
      = BishopAttacksOnTheFly example_attack_env 9 0x8000000"
    by blast
  then have b: "bishop_attacks (InitAttackTables example_attack_env static_zero_attack_tables) 9 2
      = 0x8050005"
    by (simp add: example_attack_env_def example_magic_index_b2 chess_attacks_b2)
  have "(0x200001000 :: Bitboard)
          AND NOT (rook_masks (InitAttackTables example_attack_env static_zero_attack_tables) 9) = 0"
    by (simp add: rm)
  with th have "rook_attacks (InitAttackTables example_attack_env static_zero_attack_tables) 9
      (magic_index (rook_magic_numbers example_attack_env 9)
         (rook_relevant_bits example_attack_env) 0x200001000)
      = RookAttacksOnTheFly example_attack_env 9 0x200001000"
    by blast
  then have r: "rook_attacks (InitAttackTables example_attack_env static_zero_attack_tables) 9 544
      = 0x202021D02"
    by (simp add: example_attack_env_def example_magic_index_b2 chess_attacks_b2)
  show ?thesis using sq bits cnt b r by simp
qed

subsection \<open>The query operation on the built tables\<close>

lemma masked_subset: "(occ AND m) AND NOT m = (0 :: Bitboard)"
  by (rule bit_eqI) (simp add: bit_and_iff bit_not_iff)

text \<open>
  With valid constants for a square, the table lookup of the query operation returns the
  ray-cast attack set of the occupancy masked down to the square's relevant squares.
\<close>

lemma magic_lookup_exact:
  assumes "square < 64"
    and "magic_valid (MaskBishopAttacks env square) (bishop_magic_numbers env square)
           (bishop_relevant_bits env) (BishopAttacksOnTheFly env square)"
    and "magic_valid (MaskRookAttacks env square) (rook_magic_numbers env square)
           (rook_relevant_bits env) (RookAttacksOnTheFly env square)"
  shows "GetBishopAttacks_lookup env (InitAttackTables env T) square occ
           = BishopAttacksOnTheFly env square (occ AND MaskBishopAttacks env square)"
    and "GetRookAttacks_lookup env (InitAttackTables env T) square occ
           = RookAttacksOnTheFly env square (occ AND MaskRookAttacks env square)"
proof -
  obtain T' where
    b: "bishop_attacks (InitAttackTables env T) square
          = bishop_attacks (square_body env square T') square"
    and r: "rook_attacks (InitAttackTables env T) square
          = rook_attacks (square_body env square T') square"
    using InitAttackTables_row [OF assms(1)] by blast
  show "GetBishopAttacks_lookup env (InitAttackTables env T) square occ
           = BishopAttacksOnTheFly env square (occ AND MaskBishopAttacks env square)"
    unfolding GetBishopAttacks_lookup_def InitAttackTables_masks(1) [OF assms(1)] b
      square_body_bishop
    by (rule slider_fold_lookup [OF assms(2) masked_subset])
  show "GetRookAttacks_lookup env (InitAttackTables env T) square occ
           = RookAttacksOnTheFly env square (occ AND MaskRookAttacks env square)"
    unfolding GetRookAttacks_lookup_def InitAttackTables_masks(2) [OF assms(1)] r
      square_body_rook
    by (rule slider_fold_lookup [OF assms(3) masked_subset])
qed

end
